theory Spec2Isabelle
  imports Complex_Main "HOL-Library.Multiset"
begin

section \<open>Numbers\<close>

text \<open>
  The analysis engine computes with JavaScript numbers. Finite numbers are modelled as
  reals with exact arithmetic (IEEE rounding and the sign of zero are not modelled); the
  three special values are explicit, since the source can produce them where it divides
  by a count that may be zero or reduces an empty array.
\<close>

datatype jsnum = NaN | NegInf | Fin real | PosInf

fun jsneg :: "jsnum \<Rightarrow> jsnum" where
  "jsneg NaN = NaN"
| "jsneg NegInf = PosInf"
| "jsneg (Fin a) = Fin (- a)"
| "jsneg PosInf = NegInf"

fun jsadd :: "jsnum \<Rightarrow> jsnum \<Rightarrow> jsnum" where
  "jsadd (Fin a) (Fin b) = Fin (a + b)"
| "jsadd NaN y = NaN"
| "jsadd x NaN = NaN"
| "jsadd PosInf NegInf = NaN"
| "jsadd NegInf PosInf = NaN"
| "jsadd PosInf y = PosInf"
| "jsadd x PosInf = PosInf"
| "jsadd NegInf y = NegInf"
| "jsadd x NegInf = NegInf"

definition jssub :: "jsnum \<Rightarrow> jsnum \<Rightarrow> jsnum" where
  "jssub x y = jsadd x (jsneg y)"

text \<open>\<^verbatim>\<open>x * c\<close> for a finite positive constant \<open>c\<close>.\<close>

fun jsscale :: "jsnum \<Rightarrow> real \<Rightarrow> jsnum" where
  "jsscale (Fin a) c = Fin (a * c)"
| "jsscale x c = x"

text \<open>\<^verbatim>\<open>x / b\<close> for a finite, non-negative \<open>b\<close>.\<close>

fun jsdiv :: "jsnum \<Rightarrow> real \<Rightarrow> jsnum" where
  "jsdiv (Fin a) b =
     (if b \<noteq> 0 then Fin (a / b)
      else if a = 0 then NaN
      else if 0 < a then PosInf else NegInf)"
| "jsdiv NaN b = NaN"
| "jsdiv PosInf b = PosInf"
| "jsdiv NegInf b = NegInf"

text \<open>\<^verbatim>\<open>x > y\<close>: false as soon as one side is NaN.\<close>

fun jsgt :: "jsnum \<Rightarrow> jsnum \<Rightarrow> bool" where
  "jsgt NaN y = False"
| "jsgt x NaN = False"
| "jsgt (Fin a) (Fin b) = (b < a)"
| "jsgt PosInf PosInf = False"
| "jsgt PosInf y = True"
| "jsgt x PosInf = False"
| "jsgt NegInf y = False"
| "jsgt x NegInf = True"

text \<open>\<^verbatim>\<open>Math.min\<close> and \<^verbatim>\<open>Math.max\<close> of two numbers: NaN if either is.\<close>

fun Math_min :: "jsnum \<Rightarrow> jsnum \<Rightarrow> jsnum" where
  "Math_min NaN y = NaN"
| "Math_min x NaN = NaN"
| "Math_min x y = (if jsgt x y then y else x)"

fun Math_max :: "jsnum \<Rightarrow> jsnum \<Rightarrow> jsnum" where
  "Math_max NaN y = NaN"
| "Math_max x NaN = NaN"
| "Math_max x y = (if jsgt y x then y else x)"

text \<open>\<^verbatim>\<open>Math.round\<close> rounds a finite number half up and keeps the special values.\<close>

fun Math_round :: "jsnum \<Rightarrow> jsnum" where
  "Math_round (Fin a) = Fin (of_int \<lfloor>a + 1 / 2\<rfloor>)"
| "Math_round x = x"

text \<open>
  \<^verbatim>\<open>Array.prototype.sort(cmp)\<close> is stable; an element moves behind another only when
  the comparator is positive on the pair (a NaN comparison counts as zero). For a
  consistent comparator this insertion sort returns the array the source gets.
\<close>

fun insertBy :: "('a \<Rightarrow> 'a \<Rightarrow> jsnum) \<Rightarrow> 'a \<Rightarrow> 'a list \<Rightarrow> 'a list" where
  "insertBy cmp x [] = [x]"
| "insertBy cmp x (y # ys) =
     (if jsgt (cmp x y) (Fin 0) then y # insertBy cmp x ys else x # y # ys)"

definition sortBy :: "('a \<Rightarrow> 'a \<Rightarrow> jsnum) \<Rightarrow> 'a list \<Rightarrow> 'a list" where
  "sortBy cmp xs = foldr (insertBy cmp) xs []"

text \<open>\<^verbatim>\<open>(a, b) => a - b\<close> on finite numbers.\<close>

definition ascending :: "real \<Rightarrow> real \<Rightarrow> jsnum" where
  "ascending a b = Fin (a - b)"

section \<open>Cells, rows and the host\<close>

text \<open>
  A cell is what the spreadsheet reader puts in a row: \<^verbatim>\<open>null\<close>, a missing field
  (\<^verbatim>\<open>undefined\<close>), a finite number, a string, a boolean or a \<^verbatim>\<open>Date\<close> object, whose time
  value is \<open>None\<close> for an invalid date.
\<close>

datatype cell = Null | Undefined | Num real | Str string | Bool bool | DateObj "real option"

text \<open>A row is a \<^verbatim>\<open>Record<string, any>\<close>: its fields in insertion order.\<close>

type_synonym row = "(string \<times> cell) list"

text \<open>\<^verbatim>\<open>row[key]\<close>\<close>

definition field :: "row \<Rightarrow> string \<Rightarrow> cell" where
  "field r k = (case map_of r k of None \<Rightarrow> Undefined | Some v \<Rightarrow> v)"

text \<open>
  The built-in functions of the JavaScript host that the engine calls on strings and
  rows are parameters of the model: the numeric value of a string (\<open>None\<close> is NaN),
  whether \<^verbatim>\<open>Date.parse\<close> accepts a string, the string forms of a number and of a date,
  and \<^verbatim>\<open>JSON.stringify\<close> of a row. The last parameter is the array that
  \<^verbatim>\<open>Array.prototype.sort\<close> leaves when the comparator of the aggregation is not
  consistent (a value is NaN): the language leaves that order to the implementation.
\<close>

record host =
  Number_of_string :: "string \<Rightarrow> real option"
  Date_parse_valid :: "string \<Rightarrow> bool"
  String_of_number :: "real \<Rightarrow> string"
  String_of_date :: "real option \<Rightarrow> string"
  JSON_stringify :: "row \<Rightarrow> string"
  Sort_inconsistent :: "(string \<times> jsnum) list \<Rightarrow> (string \<times> jsnum) list"

text \<open>\<^verbatim>\<open>Number(v)\<close>; \<open>None\<close> is NaN.\<close>

fun Number :: "host \<Rightarrow> cell \<Rightarrow> real option" where
  "Number h Null = Some 0"
| "Number h Undefined = None"
| "Number h (Num r) = Some r"
| "Number h (Str s) = Number_of_string h s"
| "Number h (Bool b) = Some (if b then 1 else 0)"
| "Number h (DateObj t) = t"

text \<open>\<^verbatim>\<open>v !== null && v !== undefined && v !== ''\<close>\<close>

definition nonNull :: "cell \<Rightarrow> bool" where
  "nonNull v = (v \<noteq> Null \<and> v \<noteq> Undefined \<and> v \<noteq> Str [])"

fun isBoolean :: "cell \<Rightarrow> bool" where
  "isBoolean (Bool b) = True"
| "isBoolean v = False"

text \<open>\<^verbatim>\<open>s.includes(c)\<close> for a one-character needle.\<close>

definition str_includes :: "string \<Rightarrow> char \<Rightarrow> bool" where
  "str_includes s c = (c \<in> set s)"

section \<open>Column metadata (excel-parser.ts)\<close>

datatype coltype = TNumber | TString | TDate | TBoolean

text \<open>\<^verbatim>\<open>ColumnInfo\<close>; the fields \<^verbatim>\<open>type\<close>, \<^verbatim>\<open>min\<close>, \<^verbatim>\<open>max\<close>, \<^verbatim>\<open>sum\<close>, \<^verbatim>\<open>avg\<close> are renamed.\<close>

record ColumnInfo =
  name :: string
  col_type :: coltype
  uniqueValues :: nat
  nullCount :: nat
  col_min :: "real option"
  col_max :: "real option"
  col_sum :: "real option"
  col_avg :: "real option"

text \<open>
  \<^verbatim>\<open>ParsedData\<close>, with the fields the engine reads; \<^verbatim>\<open>rowCount\<close> is a field of its
  own, which the reader sets to the number of rows.
\<close>

record ParsedData =
  rows :: "row list"
  columns :: "ColumnInfo list"
  rowCount :: nat

section \<open>Objects and maps keyed by strings\<close>

text \<open>
  A plain object used as a dictionary and a \<^verbatim>\<open>Map\<close> are association lists in insertion
  order; assigning to a key that is present replaces its value in place. A plain
  object also inherits names from \<^verbatim>\<open>Object.prototype\<close> (such as \<^verbatim>\<open>constructor\<close> or
  \<^verbatim>\<open>__proto__\<close>), on which a lookup does not behave like a dictionary. The
  aggregation reads group keys that come from cell values, and its model has that case;
  the column names that key the other objects come from the keys of a row and are taken
  to be none of these names.
\<close>

fun objSet :: "(string \<times> 'a) list \<Rightarrow> string \<Rightarrow> 'a \<Rightarrow> (string \<times> 'a) list" where
  "objSet [] k v = [(k, v)]"
| "objSet ((k', v') # kvs) k v =
     (if k' = k then (k, v) # kvs else (k', v') # objSet kvs k v)"

definition objGet :: "(string \<times> 'a) list \<Rightarrow> string \<Rightarrow> 'a option" where
  "objGet kvs k = map_of kvs k"

text \<open>
  \<^verbatim>\<open>Object.keys\<close>, \<^verbatim>\<open>Object.values\<close> and \<^verbatim>\<open>Object.entries\<close> list the keys that are
  array indices (canonical decimal strings below \<open>2\<^sup>3\<^sup>2 - 1\<close>) first, in ascending numeric
  order, then the other keys in insertion order.
\<close>

definition digitVal :: "char \<Rightarrow> nat option" where
  "digitVal c =
     (let n = (of_char c :: nat) in if 48 \<le> n \<and> n \<le> 57 then Some (n - 48) else None)"

fun parseDigits :: "nat \<Rightarrow> string \<Rightarrow> nat option" where
  "parseDigits acc [] = Some acc"
| "parseDigits acc (c # cs) =
     (case digitVal c of None \<Rightarrow> None | Some d \<Rightarrow> parseDigits (10 * acc + d) cs)"

definition arrayIndex :: "string \<Rightarrow> nat option" where
  "arrayIndex s =
     (case s of
        [] \<Rightarrow> None
      | c # cs \<Rightarrow>
          if c = CHR ''0'' \<and> cs \<noteq> [] then None
          else (case parseDigits 0 s of
                  None \<Rightarrow> None
                | Some n \<Rightarrow> if int n < 2 ^ 32 - 1 then Some n else None))"

definition indexKey :: "string \<times> 'a \<Rightarrow> nat" where
  "indexKey kv = (case arrayIndex (fst kv) of None \<Rightarrow> 0 | Some n \<Rightarrow> n)"

definition Object_entries :: "(string \<times> 'a) list \<Rightarrow> (string \<times> 'a) list" where
  "Object_entries obj =
     sort_key indexKey (filter (\<lambda>kv. arrayIndex (fst kv) \<noteq> None) obj)
       @ filter (\<lambda>kv. arrayIndex (fst kv) = None) obj"

definition Object_keys :: "(string \<times> 'a) list \<Rightarrow> string list" where
  "Object_keys obj = map fst (Object_entries obj)"

definition Object_values :: "(string \<times> 'a) list \<Rightarrow> 'a list" where
  "Object_values obj = map snd (Object_entries obj)"

section \<open>Data quality engine (data-quality.ts)\<close>

datatype SeverityLevel = Low | Medium | High | Critical

datatype IssueType = Missing | Outlier | Duplicate | MixedType | Inconsistent

text \<open>
  \<^verbatim>\<open>DataQualityIssue\<close>. The identifier \<^verbatim>\<open>issue-N\<close> is kept as \<open>N\<close>; the three
  display strings (\<^verbatim>\<open>message\<close>, \<^verbatim>\<open>details\<close>, \<^verbatim>\<open>suggestion\<close>) are formatted from the
  other fields and are left out.
\<close>

record DataQualityIssue =
  issue_id :: nat
  issue_type :: IssueType
  column :: "string option"
  severity :: SeverityLevel
  affectedRows :: nat
  percentage :: jsnum

definition detectOutliers :: "real list \<Rightarrow> real list \<times> nat" where
  "detectOutliers values =
     (if length values < 4 then ([], 0)
      else
        let sorted = sortBy ascending values;
            q1 = sorted ! nat \<lfloor>real (length sorted) * 0.25\<rfloor>;
            q3 = sorted ! nat \<lfloor>real (length sorted) * 0.75\<rfloor>;
            iqr = q3 - q1;
            lowerBound = q1 - 1.5 * iqr;
            upperBound = q3 + 1.5 * iqr;
            outliers = filter (\<lambda>v. v < lowerBound \<or> upperBound < v) values
        in (outliers, length outliers))"

datatype valtype = VNumber | VBoolean | VDate | VString

text \<open>\<^verbatim>\<open>Set.add\<close>: a set keeps its members in insertion order.\<close>

definition setAdd :: "'a list \<Rightarrow> 'a \<Rightarrow> 'a list" where
  "setAdd s x = (if x \<in> set s then s else s @ [x])"

text \<open>
  The body of the \<^verbatim>\<open>forEach\<close> of \<^verbatim>\<open>detectMixedTypes\<close>. Its third test reads
  \<^verbatim>\<open>v instanceof Date || (!isNaN(Date.parse(v)) && (v.includes('/') || v.includes('-')))\<close>
  and is reached by strings and invalid dates only: numbers, valid dates and numeric
  strings take the first branch, booleans the second.
\<close>

definition detectMixedTypesStep :: "host \<Rightarrow> cell \<Rightarrow> valtype list \<Rightarrow> valtype list" where
  "detectMixedTypesStep h v types =
     (if v = Null \<or> v = Undefined \<or> v = Str [] then types
      else if Number h v \<noteq> None \<and> \<not> isBoolean v then setAdd types VNumber
      else if isBoolean v \<or> v = Str ''true'' \<or> v = Str ''false'' then setAdd types VBoolean
      else if (case v of
                 DateObj t \<Rightarrow> True
               | Str s \<Rightarrow> Date_parse_valid h s \<and> (str_includes s CHR ''/'' \<or> str_includes s CHR ''-'')
               | _ \<Rightarrow> False)
           then setAdd types VDate
      else setAdd types VString)"

definition detectMixedTypes :: "host \<Rightarrow> cell list \<Rightarrow> bool \<times> valtype list" where
  "detectMixedTypes h values =
     (let types = fold (detectMixedTypesStep h) values [] in (1 < length types, types))"

text \<open>The body of the \<^verbatim>\<open>forEach\<close> of \<^verbatim>\<open>findDuplicates\<close>, on \<open>(seen, duplicateRows)\<close>.\<close>

definition findDuplicatesStep ::
  "host \<Rightarrow> row \<Rightarrow> (string \<times> nat) list \<times> nat \<Rightarrow> (string \<times> nat) list \<times> nat" where
  "findDuplicatesStep h r st =
     (case st of (seen, duplicateRows) \<Rightarrow>
        let key = JSON_stringify h r;
            count = (case objGet seen key of None \<Rightarrow> 0 | Some c \<Rightarrow> c)
        in (objSet seen key (count + 1),
            if 0 < count then duplicateRows + 1 else duplicateRows))"

text \<open>Returns \<open>(duplicateRows, duplicateGroups)\<close>.\<close>

definition findDuplicates :: "host \<Rightarrow> row list \<Rightarrow> nat \<times> nat" where
  "findDuplicates h rs =
     (case fold (findDuplicatesStep h) rs ([], 0) of (seen, duplicateRows) \<Rightarrow>
        (duplicateRows, length (filter (\<lambda>c. 1 < c) (map snd seen))))"

text \<open>
  The pass of \<^verbatim>\<open>analyzeDataQuality\<close> over one column runs three checks in sequence on
  \<open>(issues, issueId, columnScore)\<close>.
\<close>

type_synonym colstate = "DataQualityIssue list \<times> nat \<times> jsnum"

definition missingPercentage :: "ParsedData \<Rightarrow> ColumnInfo \<Rightarrow> jsnum" where
  "missingPercentage sheet col =
     jsscale (jsdiv (Fin (real (nullCount col))) (real (rowCount sheet))) 100"

definition missingSeverity :: "jsnum \<Rightarrow> SeverityLevel" where
  "missingSeverity p =
     (if jsgt p (Fin 50) then Critical
      else if jsgt p (Fin 25) then High
      else if jsgt p (Fin 10) then Medium
      else Low)"

definition checkMissing :: "ParsedData \<Rightarrow> ColumnInfo \<Rightarrow> colstate \<Rightarrow> colstate" where
  "checkMissing sheet col st =
     (case st of (issues, issueId, columnScore) \<Rightarrow>
        let p = missingPercentage sheet col in
        if jsgt p (Fin 0) then
          let severity = missingSeverity p in
          if jsgt p (Fin 5) then
            (issues @ [\<lparr>issue_id = issueId, issue_type = Missing, column = Some (name col),
                         severity = severity, affectedRows = nullCount col, percentage = p\<rparr>],
             issueId + 1,
             jssub columnScore (Math_min p (Fin 50)))
          else st
        else st)"

text \<open>\<^verbatim>\<open>values.filter(v => v !== null && !isNaN(Number(v))).map(Number)\<close>\<close>

definition numericValues :: "host \<Rightarrow> cell list \<Rightarrow> real list" where
  "numericValues h values =
     List.map_filter (Number h) (filter (\<lambda>v. v \<noteq> Null \<and> Number h v \<noteq> None) values)"

definition outlierPercentage :: "host \<Rightarrow> cell list \<Rightarrow> jsnum" where
  "outlierPercentage h values =
     (let nums = numericValues h values;
          outlierCount = snd (detectOutliers nums)
      in jsscale (jsdiv (Fin (real outlierCount)) (real (length nums))) 100)"

definition outlierSeverity :: "jsnum \<Rightarrow> SeverityLevel" where
  "outlierSeverity p =
     (if jsgt p (Fin 15) then High else if jsgt p (Fin 5) then Medium else Low)"

definition checkOutliers :: "host \<Rightarrow> ColumnInfo \<Rightarrow> cell list \<Rightarrow> colstate \<Rightarrow> colstate" where
  "checkOutliers h col values st =
     (case st of (issues, issueId, columnScore) \<Rightarrow>
        if col_type col = TNumber then
          let outlierCount = snd (detectOutliers (numericValues h values));
              p = outlierPercentage h values
          in if jsgt p (Fin 1) then
               (issues @ [\<lparr>issue_id = issueId, issue_type = Outlier, column = Some (name col),
                            severity = outlierSeverity p, affectedRows = outlierCount,
                            percentage = p\<rparr>],
                issueId + 1,
                jssub columnScore (Math_min (jsscale p 2) (Fin 30)))
             else st
        else st)"

definition checkMixed :: "host \<Rightarrow> ParsedData \<Rightarrow> ColumnInfo \<Rightarrow> cell list \<Rightarrow> colstate \<Rightarrow> colstate" where
  "checkMixed h sheet col values st =
     (case st of (issues, issueId, columnScore) \<Rightarrow>
        if fst (detectMixedTypes h values) then
          (issues @ [\<lparr>issue_id = issueId, issue_type = MixedType, column = Some (name col),
                       severity = Medium, affectedRows = rowCount sheet,
                       percentage = Fin 100\<rparr>],
           issueId + 1,
           jssub columnScore (Fin 20))
        else st)"

text \<open>\<^verbatim>\<open>sheet.rows.map(row => row[col.name])\<close>\<close>

definition columnValues :: "ParsedData \<Rightarrow> ColumnInfo \<Rightarrow> cell list" where
  "columnValues sheet col = map (\<lambda>r. field r (name col)) (rows sheet)"

text \<open>The three checks of one column, from a score of 100.\<close>

definition columnChecks :: "host \<Rightarrow> ParsedData \<Rightarrow> ColumnInfo \<Rightarrow> DataQualityIssue list \<times> nat \<Rightarrow> colstate" where
  "columnChecks h sheet col st =
     (case st of (issues, issueId) \<Rightarrow>
        let values = columnValues sheet col in
        checkMixed h sheet col values
          (checkOutliers h col values
            (checkMissing sheet col (issues, issueId, Fin 100))))"

text \<open>
  The body of \<^verbatim>\<open>sheet.columns.forEach\<close>, on \<open>(issues, columnHealth, issueId)\<close>.
\<close>

definition columnPass ::
  "host \<Rightarrow> ParsedData \<Rightarrow> ColumnInfo \<Rightarrow>
   DataQualityIssue list \<times> (string \<times> jsnum) list \<times> nat \<Rightarrow>
   DataQualityIssue list \<times> (string \<times> jsnum) list \<times> nat" where
  "columnPass h sheet col st =
     (case st of (issues, health, issueId) \<Rightarrow>
        (case columnChecks h sheet col (issues, issueId) of
           (issues', issueId', columnScore) \<Rightarrow>
             (issues',
              objSet health (name col) (Math_max (Fin 0) (Math_round columnScore)),
              issueId')))"

definition duplicateSeverity :: "jsnum \<Rightarrow> SeverityLevel" where
  "duplicateSeverity p =
     (if jsgt p (Fin 20) then High else if jsgt p (Fin 10) then Medium else Low)"

definition checkDuplicates ::
  "host \<Rightarrow> ParsedData \<Rightarrow> DataQualityIssue list \<times> nat \<Rightarrow> DataQualityIssue list \<times> nat" where
  "checkDuplicates h sheet st =
     (case st of (issues, issueId) \<Rightarrow>
        let duplicateRows = fst (findDuplicates h (rows sheet)) in
        if 0 < duplicateRows then
          let p = jsscale (jsdiv (Fin (real duplicateRows)) (real (rowCount sheet))) 100 in
          (issues @ [\<lparr>issue_id = issueId, issue_type = Duplicate, column = None,
                       severity = duplicateSeverity p, affectedRows = duplicateRows,
                       percentage = p\<rparr>],
           issueId + 1)
        else st)"

fun severityOrder :: "SeverityLevel \<Rightarrow> real" where
  "severityOrder Critical = 0"
| "severityOrder High = 1"
| "severityOrder Medium = 2"
| "severityOrder Low = 3"

definition bySeverity :: "DataQualityIssue \<Rightarrow> DataQualityIssue \<Rightarrow> jsnum" where
  "bySeverity a b = Fin (severityOrder (severity a) - severityOrder (severity b))"

text \<open>\<^verbatim>\<open>xs.reduce((a, b) => a + b, 0)\<close> on numbers that may be special.\<close>

definition reduce_jsadd :: "jsnum list \<Rightarrow> jsnum" where
  "reduce_jsadd xs = foldl jsadd (Fin 0) xs"

definition countSeverity :: "SeverityLevel \<Rightarrow> DataQualityIssue list \<Rightarrow> nat" where
  "countSeverity s is = length (filter (\<lambda>i. severity i = s) is)"

record Summary =
  totalIssues :: nat
  criticalCount :: nat
  highCount :: nat
  mediumCount :: nat
  lowCount :: nat

record DataQualityReport =
  overallScore :: jsnum
  issues :: "DataQualityIssue list"
  summary :: Summary
  columnHealth :: "(string \<times> jsnum) list"

definition analyzeDataQuality :: "host \<Rightarrow> ParsedData \<Rightarrow> DataQualityReport" where
  "analyzeDataQuality h sheet =
     (case fold (columnPass h sheet) (columns sheet) ([], [], 0) of
        (issues1, health, issueId1) \<Rightarrow>
          let issues2 = fst (checkDuplicates h sheet (issues1, issueId1));
              sorted = sortBy bySeverity issues2;
              avgColumnHealth =
                jsdiv (reduce_jsadd (Object_values health)) (real (length (Object_keys health)));
              issuesPenalty = Math_min (Fin (real (length sorted) * 5)) (Fin 30);
              score = Math_max (Fin 0) (Math_round (jssub avgColumnHealth issuesPenalty))
          in \<lparr>overallScore = score,
              issues = sorted,
              summary = \<lparr>totalIssues = length sorted,
                          criticalCount = countSeverity Critical sorted,
                          highCount = countSeverity High sorted,
                          mediumCount = countSeverity Medium sorted,
                          lowCount = countSeverity Low sorted\<rparr>,
              columnHealth = health\<rparr>)"

section \<open>Type inference (excel-parser.ts)\<close>

datatype js_error = TypeError

text \<open>The callbacks of the first two filters of \<^verbatim>\<open>detectColumnType\<close>.\<close>

definition booleanLike :: "cell \<Rightarrow> bool" where
  "booleanLike v = (isBoolean v \<or> v = Str ''true'' \<or> v = Str ''false'')"

definition numberLike :: "host \<Rightarrow> cell \<Rightarrow> bool" where
  "numberLike h v = (Number h v \<noteq> None \<and> v \<noteq> Str [])"

text \<open>
  The callback of the third filter returns true for a \<^verbatim>\<open>Date\<close> and otherwise
  \<^verbatim>\<open>!isNaN(parsed) && typeof v === 'string' && v.includes('/') || v.includes('-')\<close>,
  which groups as \<^verbatim>\<open>(... && ... && ...) || v.includes('-')\<close>. For a string this is a
  boolean. For a number or a boolean the conjunction is false at \<^verbatim>\<open>typeof\<close>, so
  \<^verbatim>\<open>v.includes('-')\<close> is evaluated, and that call throws: \<^verbatim>\<open>includes\<close> is not a
  function of a number or boolean.
\<close>

definition dateLike :: "host \<Rightarrow> cell \<Rightarrow> js_error + bool" where
  "dateLike h v =
     (case v of
        DateObj t \<Rightarrow> Inr True
      | Str s \<Rightarrow>
          Inr ((Date_parse_valid h s \<and> str_includes s CHR ''/'') \<or> str_includes s CHR ''-'')
      | _ \<Rightarrow> Inl TypeError)"

text \<open>\<^verbatim>\<open>xs.filter(callback).length\<close>, where the callback may throw.\<close>

fun countDateLike :: "host \<Rightarrow> cell list \<Rightarrow> js_error + nat" where
  "countDateLike h [] = Inr 0"
| "countDateLike h (v # vs) =
     (case dateLike h v of
        Inl e \<Rightarrow> Inl e
      | Inr b \<Rightarrow>
          (case countDateLike h vs of
             Inl e \<Rightarrow> Inl e
           | Inr n \<Rightarrow> Inr (if b then n + 1 else n)))"

text \<open>
  The three ratios are taken over a non-empty array, so the divisions are real
  divisions; \<open>0.8\<close> is the rational \<open>4/5\<close>. (In double arithmetic \<open>k / n > 0.8\<close> agrees with
  the rational comparison for every array length below \<open>2\<^sup>5\<^sup>0\<close>.)
\<close>

definition detectColumnType :: "host \<Rightarrow> cell list \<Rightarrow> js_error + coltype" where
  "detectColumnType h values =
     (let nonNullValues = filter nonNull values in
      if length nonNullValues = 0 then Inr TString
      else
        let booleanCount = length (filter booleanLike nonNullValues) in
        if real booleanCount / real (length nonNullValues) > 0.8 then Inr TBoolean
        else
          let numberCount = length (filter (numberLike h) nonNullValues) in
          if real numberCount / real (length nonNullValues) > 0.8 then Inr TNumber
          else
            (case countDateLike h nonNullValues of
               Inl e \<Rightarrow> Inl e
             | Inr dateCount \<Rightarrow>
                 if real dateCount / real (length nonNullValues) > 0.8 then Inr TDate
                 else Inr TString))"

section \<open>Column profile: the histogram (data-profiling.ts)\<close>

text \<open>
  Of \<^verbatim>\<open>profileColumn\<close> the histogram is modelled: the counts of its bins, in order, or
  \<open>None\<close> when the profile has no \<^verbatim>\<open>histogram\<close> field. The bin labels are formatted
  strings and are left out.
\<close>

text \<open>\<^verbatim>\<open>nonNullValues.map(Number).filter(n => !isNaN(n))\<close>\<close>

definition profileNumericValues :: "host \<Rightarrow> cell list \<Rightarrow> real list" where
  "profileNumericValues h values = List.map_filter (Number h) (filter nonNull values)"

text \<open>\<^verbatim>\<open>x || 0\<close> on an optional finite number.\<close>

definition orZero :: "real option \<Rightarrow> real" where
  "orZero x = (case x of None \<Rightarrow> 0 | Some r \<Rightarrow> r)"

text \<open>\<^verbatim>\<open>Math.floor\<close>\<close>

fun Math_floor :: "jsnum \<Rightarrow> jsnum" where
  "Math_floor (Fin a) = Fin (of_int \<lfloor>a\<rfloor>)"
| "Math_floor x = x"

text \<open>
  \<^verbatim>\<open>bins[binIndex]++\<close>. An index that is NaN, infinite or negative names a property of
  the array object, not an element, so no element changes. The index is never beyond
  the last bin: it is a minimum with \<open>binCount - 1\<close>.
\<close>

definition bumpBin :: "nat list \<Rightarrow> jsnum \<Rightarrow> nat list" where
  "bumpBin bins binIndex =
     (case binIndex of
        Fin i \<Rightarrow>
          if 0 \<le> i \<and> nat \<lfloor>i\<rfloor> < length bins
          then bins[nat \<lfloor>i\<rfloor> := bins ! nat \<lfloor>i\<rfloor> + 1]
          else bins
      | _ \<Rightarrow> bins)"

definition binIndexOf :: "ColumnInfo \<Rightarrow> nat \<Rightarrow> real \<Rightarrow> real \<Rightarrow> jsnum" where
  "binIndexOf col binCount binWidth v =
     Math_min (Fin (real binCount - 1))
       (Math_floor (jsdiv (Fin (v - orZero (col_min col))) binWidth))"

definition profileHistogram :: "host \<Rightarrow> ColumnInfo \<Rightarrow> cell list \<Rightarrow> nat list option" where
  "profileHistogram h col values =
     (if col_type col = TNumber then
        let nums = profileNumericValues h values in
        if 0 < length nums then
          let range = orZero (col_max col) - orZero (col_min col);
              binCount = min 10 (nat \<lceil>sqrt (real (length nums))\<rceil>);
              binWidth = range / real binCount;
              bins = fold (\<lambda>v bins. bumpBin bins (binIndexOf col binCount binWidth v))
                       nums (replicate binCount 0)
          in Some bins
        else None
      else None)"

section \<open>A host for closed instances\<close>

text \<open>
  The closed instances further down need a concrete host. This one agrees with
  JavaScript on the cells those instances contain: natural numbers, booleans,
  \<^verbatim>\<open>null\<close>, and strings of ASCII letters or decimal digits. A string is numeric when it
  is empty or all decimal digits, no string parses as a date, a number prints as a
  decimal natural number, and a row is serialised as \<^verbatim>\<open>{"key":value,...}\<close> without its
  undefined fields. No instance sorts with a NaN value, so the order for an inconsistent
  comparator is never consulted; it is set to the order given.
\<close>

fun showNat :: "nat \<Rightarrow> string" where
  "showNat n =
     (if n < 10 then [char_of (48 + n)] else showNat (n div 10) @ [char_of (48 + n mod 10)])"

declare showNat.simps [simp del]

fun showCell :: "cell \<Rightarrow> string" where
  "showCell Null = ''null''"
| "showCell Undefined = ''undefined''"
| "showCell (Num r) = showNat (nat \<lfloor>r\<rfloor>)"
| "showCell (Str s) = [CHR 0x22] @ s @ [CHR 0x22]"
| "showCell (Bool b) = (if b then ''true'' else ''false'')"
| "showCell (DateObj t) = ''null''"

fun showFields :: "row \<Rightarrow> string list" where
  "showFields [] = []"
| "showFields ((k, v) # kvs) =
     (if v = Undefined then showFields kvs
      else ([CHR 0x22] @ k @ [CHR 0x22] @ '':'' @ showCell v) # showFields kvs)"

fun joinWith :: "string \<Rightarrow> string list \<Rightarrow> string" where
  "joinWith sep [] = []"
| "joinWith sep [x] = x"
| "joinWith sep (x # y # ys) = x @ sep @ joinWith sep (y # ys)"

definition showRow :: "row \<Rightarrow> string" where
  "showRow r = ''{'' @ joinWith '','' (showFields r) @ ''}''"

definition digitsNumber :: "string \<Rightarrow> real option" where
  "digitsNumber s = map_option real (parseDigits 0 s)"

definition neverDate :: "string \<Rightarrow> bool" where
  "neverDate s = False"

definition showNumber :: "real \<Rightarrow> string" where
  "showNumber r = showNat (nat \<lfloor>r\<rfloor>)"

definition showDate :: "real option \<Rightarrow> string" where
  "showDate t = ''Invalid Date''"

definition keepOrder :: "(string \<times> jsnum) list \<Rightarrow> (string \<times> jsnum) list" where
  "keepOrder points = points"

definition demoHost :: host where
  "demoHost =
     \<lparr>Number_of_string = digitsNumber, Date_parse_valid = neverDate,
      String_of_number = showNumber, String_of_date = showDate,
      JSON_stringify = showRow, Sort_inconsistent = keepOrder\<rparr>"

section \<open>Correlation engine (data-profiling.ts)\<close>

text \<open>\<^verbatim>\<open>xs.reduce((a, b) => a + b, 0)\<close>\<close>

definition reduce_add :: "real list \<Rightarrow> real" where
  "reduce_add xs = foldl (+) 0 xs"

text \<open>
  One pass of the \<^verbatim>\<open>for\<close> loop of \<^verbatim>\<open>calculatePearsonCorrelation\<close>; the state is
  \<open>(numerator, denomX, denomY)\<close>.
\<close>

definition pearsonStep ::
  "real list \<Rightarrow> real list \<Rightarrow> real \<Rightarrow> real \<Rightarrow> nat \<Rightarrow> real \<times> real \<times> real \<Rightarrow> real \<times> real \<times> real" where
  "pearsonStep x y meanX meanY i acc =
     (case acc of (numerator, denomX, denomY) \<Rightarrow>
        let diffX = x ! i - meanX;
            diffY = y ! i - meanY
        in (numerator + diffX * diffY, denomX + diffX * diffX, denomY + diffY * diffY))"

definition pearsonLoop ::
  "real list \<Rightarrow> real list \<Rightarrow> real \<Rightarrow> real \<Rightarrow> nat \<Rightarrow> real \<times> real \<times> real" where
  "pearsonLoop x y meanX meanY n = fold (pearsonStep x y meanX meanY) [0..<n] (0, 0, 0)"

definition calculatePearsonCorrelation :: "real list \<Rightarrow> real list \<Rightarrow> real" where
  "calculatePearsonCorrelation x y =
     (let n = min (length x) (length y) in
      if n < 3 then 0
      else
        let meanX = reduce_add (take n x) / real n;
            meanY = reduce_add (take n y) / real n
        in (case pearsonLoop x y meanX meanY n of (numerator, denomX, denomY) \<Rightarrow>
              let denominator = sqrt (denomX * denomY)
              in if denominator = 0 then 0 else numerator / denominator))"

section \<open>Correlations of a profile (data-profiling.ts)\<close>










section \<open>Pearson's r as the specification writes it\<close>




section \<open>Aggregation (excel-parser.ts)\<close>

datatype Aggregation = AggSum | AggAvg | AggCount | AggMin | AggMax

text \<open>Truthiness of a cell, as \<^verbatim>\<open>||\<close> tests it.\<close>

fun truthy :: "cell \<Rightarrow> bool" where
  "truthy Null = False"
| "truthy Undefined = False"
| "truthy (Num r) = (r \<noteq> 0)"
| "truthy (Str s) = (s \<noteq> [])"
| "truthy (Bool b) = b"
| "truthy (DateObj t) = True"

text \<open>\<^verbatim>\<open>String(v)\<close>\<close>

fun js_String :: "host \<Rightarrow> cell \<Rightarrow> string" where
  "js_String h Null = ''null''"
| "js_String h Undefined = ''undefined''"
| "js_String h (Num r) = String_of_number h r"
| "js_String h (Str s) = s"
| "js_String h (Bool b) = (if b then ''true'' else ''false'')"
| "js_String h (DateObj t) = String_of_date h t"

text \<open>\<^verbatim>\<open>String(row[groupBy] || 'Unknown')\<close>\<close>

definition groupKey :: "host \<Rightarrow> string \<Rightarrow> row \<Rightarrow> string" where
  "groupKey h groupBy r =
     (let v = field r groupBy in if truthy v then js_String h v else ''Unknown'')"

text \<open>\<^verbatim>\<open>obj[k].push(x)\<close> for a key that is present.\<close>

definition objPush :: "(string \<times> 'a list) list \<Rightarrow> string \<Rightarrow> 'a \<Rightarrow> (string \<times> 'a list) list" where
  "objPush obj k x = map (\<lambda>kv. if fst kv = k then (fst kv, snd kv @ [x]) else kv) obj"

text \<open>
  The names a plain object inherits from \<^verbatim>\<open>Object.prototype\<close>. Under each of them a
  lookup on \<^verbatim>\<open>{}\<close> returns a function (under \<^verbatim>\<open>__proto__\<close> the prototype object), which
  is truthy and has no \<^verbatim>\<open>push\<close>.
\<close>

definition objectPrototypeNames :: "string list" where
  "objectPrototypeNames =
     [''constructor'', ''__defineGetter__'', ''__defineSetter__'', ''hasOwnProperty'',
      ''__lookupGetter__'', ''__lookupSetter__'', ''isPrototypeOf'',
      ''propertyIsEnumerable'', ''toString'', ''valueOf'', ''__proto__'',
      ''toLocaleString'']"

text \<open>
  The body of \<^verbatim>\<open>data.forEach\<close>, on \<open>grouped\<close>, which starts as \<^verbatim>\<open>{}\<close>.
  \<^verbatim>\<open>if (!grouped[key]) grouped[key] = []\<close> stores an empty array when the lookup is
  undefined, that is when the key is neither an own property nor an inherited name.
  \<^verbatim>\<open>grouped[key].push(value)\<close> then appends to the own array; on an inherited name
  there is no array, \<^verbatim>\<open>push\<close> is undefined and the call throws.
\<close>

definition aggregateStep ::
  "host \<Rightarrow> string \<Rightarrow> string \<Rightarrow> row \<Rightarrow> (string \<times> real list) list \<Rightarrow>
   js_error + (string \<times> real list) list" where
  "aggregateStep h groupBy aggregateColumn r grouped =
     (let key = groupKey h groupBy r;
          value = Number h (field r aggregateColumn);
          grouped1 =
            (if objGet grouped key = None \<and> key \<notin> set objectPrototypeNames
             then objSet grouped key [] else grouped)
      in case value of
           None \<Rightarrow> Inr grouped1
         | Some x \<Rightarrow>
             if objGet grouped1 key = None then Inl TypeError
             else Inr (objPush grouped1 key x))"

text \<open>\<^verbatim>\<open>data.forEach\<close>: the first row that throws ends the call.\<close>

fun aggregateLoop ::
  "host \<Rightarrow> string \<Rightarrow> string \<Rightarrow> row list \<Rightarrow> (string \<times> real list) list \<Rightarrow>
   js_error + (string \<times> real list) list" where
  "aggregateLoop h groupBy aggregateColumn [] grouped = Inr grouped"
| "aggregateLoop h groupBy aggregateColumn (r # rs) grouped =
     (case aggregateStep h groupBy aggregateColumn r grouped of
        Inl e \<Rightarrow> Inl e
      | Inr grouped' \<Rightarrow> aggregateLoop h groupBy aggregateColumn rs grouped')"

text \<open>\<^verbatim>\<open>Math.min(...values)\<close> and \<^verbatim>\<open>Math.max(...values)\<close> of finite numbers.\<close>

fun spreadMin :: "real list \<Rightarrow> jsnum" where
  "spreadMin [] = PosInf"
| "spreadMin (v # vs) = Fin (fold min vs v)"

fun spreadMax :: "real list \<Rightarrow> jsnum" where
  "spreadMax [] = NegInf"
| "spreadMax (v # vs) = Fin (fold max vs v)"

text \<open>The \<^verbatim>\<open>switch\<close> on the aggregation type.\<close>

fun aggregateValues :: "Aggregation \<Rightarrow> real list \<Rightarrow> jsnum" where
  "aggregateValues AggSum vs = Fin (reduce_add vs)"
| "aggregateValues AggAvg vs = jsdiv (Fin (reduce_add vs)) (real (length vs))"
| "aggregateValues AggCount vs = Fin (real (length vs))"
| "aggregateValues AggMin vs = spreadMin vs"
| "aggregateValues AggMax vs = spreadMax vs"

text \<open>\<^verbatim>\<open>Math.round(value * 100) / 100\<close>\<close>

definition round2 :: "jsnum \<Rightarrow> jsnum" where
  "round2 v = jsdiv (Math_round (jsscale v 100)) 100"

text \<open>\<^verbatim>\<open>(a, b) => b.value - a.value\<close> on \<open>(name, value)\<close>.\<close>

definition byValueDesc :: "string \<times> jsnum \<Rightarrow> string \<times> jsnum \<Rightarrow> jsnum" where
  "byValueDesc a b = jssub (snd b) (snd a)"

text \<open>\<open>grouped\<close> after the loop.\<close>

definition aggregateGroups ::
  "host \<Rightarrow> row list \<Rightarrow> string \<Rightarrow> string \<Rightarrow> js_error + (string \<times> real list) list" where
  "aggregateGroups h data groupBy aggregateColumn =
     aggregateLoop h groupBy aggregateColumn data []"

text \<open>\<^verbatim>\<open>Object.entries(grouped).map(...)\<close>: one \<open>(name, value)\<close> per group.\<close>

definition groupPoints ::
  "Aggregation \<Rightarrow> (string \<times> real list) list \<Rightarrow> (string \<times> jsnum) list" where
  "groupPoints aggregationType grouped =
     map (\<lambda>kv. (fst kv, round2 (aggregateValues aggregationType (snd kv))))
       (Object_entries grouped)"

definition aggregatePoints ::
  "host \<Rightarrow> row list \<Rightarrow> string \<Rightarrow> string \<Rightarrow> Aggregation \<Rightarrow>
   js_error + (string \<times> jsnum) list" where
  "aggregatePoints h data groupBy aggregateColumn aggregationType =
     (case aggregateGroups h data groupBy aggregateColumn of
        Inl e \<Rightarrow> Inl e
      | Inr grouped \<Rightarrow> Inr (groupPoints aggregationType grouped))"

text \<open>
  \<^verbatim>\<open>.sort((a, b) => b.value - a.value)\<close>. Without a NaN value the comparator is
  consistent (the difference of two equal infinities is NaN and counts as zero), and the
  stable sort is the insertion sort. With a NaN value the comparator is zero against
  NaN and non-zero elsewhere, the order is the implementation's, and the model takes it
  from the host.
\<close>

definition sortPoints :: "host \<Rightarrow> (string \<times> jsnum) list \<Rightarrow> (string \<times> jsnum) list" where
  "sortPoints h points =
     (if NaN \<in> snd ` set points then Sort_inconsistent h points
      else sortBy byValueDesc points)"

definition aggregateData ::
  "host \<Rightarrow> row list \<Rightarrow> string \<Rightarrow> string \<Rightarrow> Aggregation \<Rightarrow>
   js_error + (string \<times> jsnum) list" where
  "aggregateData h data groupBy aggregateColumn aggregationType =
     (case aggregatePoints h data groupBy aggregateColumn aggregationType of
        Inl e \<Rightarrow> Inl e
      | Inr points \<Rightarrow> Inr (take 10 (sortPoints h points)))"

text \<open>
  The order of the numbers, \<open>-\<infinity> < finite < +\<infinity>\<close>, as \<^verbatim>\<open>>=\<close> has it: false as soon as
  one side is NaN.
\<close>

definition jsge :: "jsnum \<Rightarrow> jsnum \<Rightarrow> bool" where
  "jsge x y = (x \<noteq> NaN \<and> y \<noteq> NaN \<and> \<not> jsgt y x)"

section \<open>Quantities of the statements\<close>

text \<open>
  The amount each check is to take off a column's score, as the specification words it:
  \<open>min(missingPct, 50)\<close> when the missing percentage exceeds 5,
  \<open>min(2 * outlierPct, 30)\<close> when a numeric column's outlier percentage exceeds 1, and 20
  for a column of mixed types. An infinite percentage (a non-zero count over zero rows)
  is capped like any other.
\<close>

definition missingPenalty :: "ParsedData \<Rightarrow> ColumnInfo \<Rightarrow> real" where
  "missingPenalty sheet col =
     (case missingPercentage sheet col of
        Fin q \<Rightarrow> if 5 < q then min q 50 else 0
      | PosInf \<Rightarrow> 50
      | _ \<Rightarrow> 0)"

definition outlierPenalty :: "host \<Rightarrow> ColumnInfo \<Rightarrow> cell list \<Rightarrow> real" where
  "outlierPenalty h col values =
     (if col_type col = TNumber then
        (case outlierPercentage h values of
           Fin q \<Rightarrow> if 1 < q then min (q * 2) 30 else 0
         | PosInf \<Rightarrow> 30
         | _ \<Rightarrow> 0)
      else 0)"

definition mixedPenalty :: "host \<Rightarrow> cell list \<Rightarrow> real" where
  "mixedPenalty h values = (if fst (detectMixedTypes h values) then 20 else 0)"

text \<open>A score within bounds: a finite number between 0 and 100.\<close>

definition inScoreRange :: "jsnum \<Rightarrow> bool" where
  "inScoreRange v = (case v of Fin t \<Rightarrow> 0 \<le> t \<and> t \<le> 100 | _ \<Rightarrow> False)"

text \<open>The issues of one type, in report order.\<close>

definition issuesOfType :: "IssueType \<Rightarrow> DataQualityIssue list \<Rightarrow> DataQualityIssue list" where
  "issuesOfType t is = filter (\<lambda>i. issue_type i = t) is"

text \<open>A string or a \<^verbatim>\<open>Date\<close>: the cells on which the date test returns a boolean.\<close>

fun textOrDate :: "cell \<Rightarrow> bool" where
  "textOrDate (Str s) = True"
| "textOrDate (DateObj t) = True"
| "textOrDate v = False"

text \<open>
  The step and the loop of the aggregation as they run on rows whose group key is not an
  inherited name: no row throws, and a key's first row makes its array.
\<close>

definition ownStep ::
  "host \<Rightarrow> string \<Rightarrow> string \<Rightarrow> row \<Rightarrow> (string \<times> real list) list \<Rightarrow>
   (string \<times> real list) list" where
  "ownStep h groupBy aggregateColumn r grouped =
     (let key = groupKey h groupBy r;
          value = Number h (field r aggregateColumn);
          grouped1 = (if objGet grouped key = None then objSet grouped key [] else grouped)
      in case value of None \<Rightarrow> grouped1 | Some x \<Rightarrow> objPush grouped1 key x)"

definition ownGroups ::
  "host \<Rightarrow> row list \<Rightarrow> string \<Rightarrow> string \<Rightarrow> (string \<times> real list) list" where
  "ownGroups h data groupBy aggregateColumn =
     fold (ownStep h groupBy aggregateColumn) data []"

section \<open>Instances\<close>

text \<open>The column \<open>[1, 1, 1, 1, 100]\<close> as a one-column sheet.\<close>

definition outlierColumn :: ColumnInfo where
  "outlierColumn = \<lparr>name = ''v'', col_type = TNumber, uniqueValues = 2, nullCount = 0,
     col_min = Some 1, col_max = Some 100, col_sum = Some 104, col_avg = Some (104 / 5)\<rparr>"

definition outlierSheet :: ParsedData where
  "outlierSheet = \<lparr>rows = map (\<lambda>v. [(''v'', Num v)]) [1, 1, 1, 1, 100],
     columns = [outlierColumn], rowCount = 5\<rparr>"

text \<open>A numeric column in which one of six values is a word.\<close>

definition mixedColumn :: ColumnInfo where
  "mixedColumn = \<lparr>name = ''m'', col_type = TNumber, uniqueValues = 6, nullCount = 0,
     col_min = Some 1, col_max = Some 5, col_sum = Some 15, col_avg = Some 3\<rparr>"

definition mixedSheet :: ParsedData where
  "mixedSheet =
     \<lparr>rows = map (\<lambda>v. [(''m'', v)]) [Num 1, Num 2, Num 3, Num 4, Num 5, Str ''abc''],
      columns = [mixedColumn], rowCount = 6\<rparr>"

text \<open>Twenty rows of one numeric field: fifteen different rows, then five of them again.\<close>

definition idColumn :: ColumnInfo where
  "idColumn = \<lparr>name = ''id'', col_type = TNumber, uniqueValues = 15, nullCount = 0,
     col_min = Some 1, col_max = Some 15, col_sum = Some 135, col_avg = Some (135 / 20)\<rparr>"

definition duplicateSheet :: ParsedData where
  "duplicateSheet =
     \<lparr>rows = map (\<lambda>v. [(''id'', Num v)])
        [1, 2, 3, 4, 5, 6, 7, 8, 9, 10, 11, 12, 13, 14, 15, 1, 2, 3, 4, 5],
      columns = [idColumn], rowCount = 20\<rparr>"

text \<open>A numeric column holding the value 5 four times.\<close>

definition constantColumn :: ColumnInfo where
  "constantColumn = \<lparr>name = ''c'', col_type = TNumber, uniqueValues = 1, nullCount = 0,
     col_min = Some 5, col_max = Some 5, col_sum = Some 20, col_avg = Some 5\<rparr>"




text \<open>Three rows in two groups, and one row whose group value is \<^verbatim>\<open>false\<close>.\<close>

definition regionRows :: "row list" where
  "regionRows =
     [[(''R'', Str ''A''), (''V'', Num 10)], [(''R'', Str ''A''), (''V'', Num 20)],
      [(''R'', Str ''B''), (''V'', Num 5)]]"

definition falseRow :: row where
  "falseRow = [(''R'', Bool False), (''V'', Num 1)]"

text \<open>A row whose group value is the word \<open>constructor\<close>.\<close>

definition constructorRow :: row where
  "constructorRow = [(''R'', Str ''constructor''), (''V'', Num 1)]"

text \<open>Ten rows of one numeric field, three of them null.\<close>

definition sparseColumn :: ColumnInfo where
  "sparseColumn = \<lparr>name = ''a'', col_type = TNumber, uniqueValues = 7, nullCount = 3,
     col_min = Some 1, col_max = Some 7, col_sum = Some 28, col_avg = Some 4\<rparr>"

definition sparseSheet :: ParsedData where
  "sparseSheet =
     \<lparr>rows = map (\<lambda>v. [(''a'', v)])
        [Num 1, Null, Num 2, Null, Num 3, Null, Num 4, Num 5, Num 6, Num 7],
      columns = [sparseColumn], rowCount = 10\<rparr>"

section \<open>Properties of the correlation engine\<close>

lemma pearsonStep_swap:
  "pearsonStep x y mx my i (a, b, c) = (a', b', c') \<Longrightarrow>
   pearsonStep y x my mx i (a, c, b) = (a', c', b')"
  by (auto simp: pearsonStep_def Let_def mult.commute)

lemma pearsonLoop_swap_fold:
  "fold (pearsonStep y x my mx) is (a, c, b) =
     (case fold (pearsonStep x y mx my) is (a, b, c) of (p, q, r) \<Rightarrow> (p, r, q))"
proof (induction "is" arbitrary: a b c)
  case Nil
  show ?case by simp
next
  case (Cons i "is")
  obtain a' b' c' where S: "pearsonStep x y mx my i (a, b, c) = (a', b', c')"
    by (cases "pearsonStep x y mx my i (a, b, c)") auto
  have "fold (pearsonStep y x my mx) (i # is) (a, c, b) =
        fold (pearsonStep y x my mx) is (a', c', b')"
    by (simp add: pearsonStep_swap [OF S])
  also have "\<dots> = (case fold (pearsonStep x y mx my) is (a', b', c') of
                      (p, q, r) \<Rightarrow> (p, r, q))"
    by (rule Cons.IH)
  finally show ?case by (simp add: S)
qed

lemma pearsonLoop_swap:
  "pearsonLoop y x my mx n = (case pearsonLoop x y mx my n of (p, q, r) \<Rightarrow> (p, r, q))"
  unfolding pearsonLoop_def by (rule pearsonLoop_swap_fold)

text \<open>
  C9. The Pearson computation is symmetric in its two arguments, truncation to
  \<open>n = min (length x) (length y)\<close> included: swapping the arguments swaps the two
  sums of squares and leaves the sum of products, so the quotient is the same number.
\<close>

theorem calculatePearsonCorrelation_symmetric:
  "calculatePearsonCorrelation x y = calculatePearsonCorrelation y x"
proof -
  obtain p q r where L: "pearsonLoop x y (reduce_add (take (min (length x) (length y)) x) / real (min (length x) (length y)))
      (reduce_add (take (min (length x) (length y)) y) / real (min (length x) (length y))) (min (length x) (length y)) = (p, q, r)"
    by (cases "pearsonLoop x y (reduce_add (take (min (length x) (length y)) x) / real (min (length x) (length y)))
      (reduce_add (take (min (length x) (length y)) y) / real (min (length x) (length y))) (min (length x) (length y))") auto
  have R: "pearsonLoop y x (reduce_add (take (min (length x) (length y)) y) / real (min (length x) (length y)))
      (reduce_add (take (min (length x) (length y)) x) / real (min (length x) (length y))) (min (length x) (length y)) = (p, r, q)"
    by (simp add: pearsonLoop_swap [of y x] L)
  show ?thesis
    unfolding calculatePearsonCorrelation_def Let_def
    by (simp add: min.commute [of "length y" "length x"] L R mult.commute [of r q])
qed

section \<open>Properties of the data quality engine\<close>

subsection \<open>Outlier detection\<close>

text \<open>The numeric sort is the ascending sort, and the two quartile indices are integer quotients.\<close>



lemma insertBy_ascending: "insertBy ascending x ys = insort x ys"
  by (induction ys) (auto simp: ascending_def)

lemma sortBy_ascending: "sortBy ascending xs = sort xs"
  by (induction xs) (simp_all add: sortBy_def sort_key_def insertBy_ascending)

lemma floor_quarter: "nat \<lfloor>real n * 0.25\<rfloor> = n div 4"
proof -
  have "real n * 0.25 = real n / real 4" by simp
  then have "\<lfloor>real n * 0.25\<rfloor> = \<lfloor>real n / real 4\<rfloor>" by (rule arg_cong)
  also have "\<dots> = int (n div 4)" by (rule floor_divide_of_nat_eq)
  finally show ?thesis by simp
qed

lemma floor_three_quarters: "nat \<lfloor>real n * 0.75\<rfloor> = 3 * n div 4"
proof -
  have "real n * 0.75 = real (3 * n) / real 4" by simp
  then have "\<lfloor>real n * 0.75\<rfloor> = \<lfloor>real (3 * n) / real 4\<rfloor>" by (rule arg_cong)
  also have "\<dots> = int (3 * n div 4)" by (rule floor_divide_of_nat_eq)
  finally show ?thesis by simp
qed

lemma numericValues_Num: "numericValues h (map Num xs) = xs"
  by (induction xs) (simp_all add: numericValues_def)

lemma detectOutliers_example: "detectOutliers [1, 1, 1, 1, 100] = ([100], 1)"
  by code_simp

text \<open>
  C6. \<^verbatim>\<open>detectOutliers\<close> returns nothing for fewer than 4 values; otherwise Q1 and Q3 are
  the entries of the sorted values at \<open>\<lfloor>n / 4\<rfloor>\<close> and \<open>\<lfloor>3 n / 4\<rfloor>\<close>, and the outliers are
  the values strictly below \<open>Q1 - 1.5 IQR\<close> or strictly above \<open>Q3 + 1.5 IQR\<close>. On
  \<open>[1, 1, 1, 1, 100]\<close> exactly \<open>100\<close> is an outlier, the outlier percentage is 20, and
  the outlier check of a numeric column emits the issue (20 exceeds 1) and takes 30 off
  the column score.
\<close>

theorem detectOutliers_iqr:
  assumes "col_type col = TNumber"
  shows "detectOutliers values =
     (if length values < 4 then ([], 0)
      else
        let q1 = sort values ! (length values div 4);
            q3 = sort values ! (3 * length values div 4);
            outliers = filter (\<lambda>v. v < q1 - 1.5 * (q3 - q1) \<or> q3 + 1.5 * (q3 - q1) < v) values
        in (outliers, length outliers))
   \<and> detectOutliers [1, 1, 1, 1, 100] = ([100], 1)
   \<and> outlierPercentage h (map Num [1, 1, 1, 1, 100]) = Fin 20
   \<and> checkOutliers h col (map Num [1, 1, 1, 1, 100]) (is, n, Fin 100) =
       (is @ [\<lparr>issue_id = n, issue_type = Outlier, column = Some (name col), severity = High,
                affectedRows = 1, percentage = Fin 20\<rparr>], n + 1, Fin 70)"
proof -
  have A: "detectOutliers values =
     (if length values < 4 then ([], 0)
      else
        let q1 = sort values ! (length values div 4);
            q3 = sort values ! (3 * length values div 4);
            outliers = filter (\<lambda>v. v < q1 - 1.5 * (q3 - q1) \<or> q3 + 1.5 * (q3 - q1) < v) values
        in (outliers, length outliers))"
    unfolding detectOutliers_def sortBy_ascending floor_quarter floor_three_quarters
    by (simp add: Let_def)
  have P: "outlierPercentage h (map Num [1, 1, 1, 1, 100]) = Fin 20"
    unfolding outlierPercentage_def numericValues_Num
    by (simp add: detectOutliers_example)
  have C: "checkOutliers h col (map Num [1, 1, 1, 1, 100]) (is, n, Fin 100) =
       (is @ [\<lparr>issue_id = n, issue_type = Outlier, column = Some (name col), severity = High,
                affectedRows = 1, percentage = Fin 20\<rparr>], n + 1, Fin 70)"
    unfolding checkOutliers_def P numericValues_Num
    by (simp add: assms detectOutliers_example outlierSeverity_def jssub_def)
  show ?thesis using A P C detectOutliers_example by blast
qed

theorem detectOutliers_iqr_witness:
  "col_type outlierColumn = TNumber
   \<and> detectOutliers [1, 1, 1, 1, 100] = ([100], 1)
   \<and> outlierPercentage demoHost (columnValues outlierSheet outlierColumn) = Fin 20
   \<and> issues (analyzeDataQuality demoHost outlierSheet) =
       [\<lparr>issue_id = 0, issue_type = Outlier, column = Some ''v'', severity = High,
          affectedRows = 1, percentage = Fin 20\<rparr>,
        \<lparr>issue_id = 1, issue_type = Duplicate, column = None, severity = High,
          affectedRows = 3, percentage = Fin 60\<rparr>]"
proof -
  have T: "col_type outlierColumn = TNumber" by (simp add: outlierColumn_def)
  have V: "columnValues outlierSheet outlierColumn = map Num [1, 1, 1, 1, 100]"
    by code_simp
  have R: "issues (analyzeDataQuality demoHost outlierSheet) =
       [\<lparr>issue_id = 0, issue_type = Outlier, column = Some ''v'', severity = High,
          affectedRows = 1, percentage = Fin 20\<rparr>,
        \<lparr>issue_id = 1, issue_type = Duplicate, column = None, severity = High,
          affectedRows = 3, percentage = Fin 60\<rparr>]"
    by code_simp
  show ?thesis
    using detectOutliers_iqr [OF T, of "[1, 1, 1, 1, 100]" demoHost "[]" 0] T V R by simp
qed

subsection \<open>The three checks of a column\<close>

lemma missingPenalty_bounds: "0 \<le> missingPenalty sheet col \<and> missingPenalty sheet col \<le> 50"
  by (simp add: missingPenalty_def split: jsnum.split)

lemma outlierPenalty_bounds: "0 \<le> outlierPenalty h col vs \<and> outlierPenalty h col vs \<le> 30"
  by (simp add: outlierPenalty_def split: jsnum.split)

lemma mixedPenalty_bounds: "0 \<le> mixedPenalty h vs \<and> mixedPenalty h vs \<le> 20"
  by (simp add: mixedPenalty_def)

lemma checkMissing_shape:
  "checkMissing sheet col (is, n, Fin s) =
     (if jsgt (missingPercentage sheet col) (Fin 5)
      then (is @ [\<lparr>issue_id = n, issue_type = Missing, column = Some (name col),
                    severity = missingSeverity (missingPercentage sheet col),
                    affectedRows = nullCount col,
                    percentage = missingPercentage sheet col\<rparr>],
            n + 1, Fin (s - missingPenalty sheet col))
      else (is, n, Fin s))"
  by (cases "missingPercentage sheet col")
     (simp_all add: checkMissing_def missingPenalty_def Let_def jssub_def min_def)

lemma checkOutliers_shape:
  "checkOutliers h col vs (is, n, Fin s) =
     (if col_type col = TNumber \<and> jsgt (outlierPercentage h vs) (Fin 1)
      then (is @ [\<lparr>issue_id = n, issue_type = Outlier, column = Some (name col),
                    severity = outlierSeverity (outlierPercentage h vs),
                    affectedRows = snd (detectOutliers (numericValues h vs)),
                    percentage = outlierPercentage h vs\<rparr>],
            n + 1, Fin (s - outlierPenalty h col vs))
      else (is, n, Fin s))"
  by (cases "outlierPercentage h vs")
     (simp_all add: checkOutliers_def outlierPenalty_def Let_def jssub_def min_def)

lemma checkMixed_shape:
  "checkMixed h sheet col vs (is, n, Fin s) =
     (if fst (detectMixedTypes h vs)
      then (is @ [\<lparr>issue_id = n, issue_type = MixedType, column = Some (name col),
                    severity = Medium, affectedRows = rowCount sheet,
                    percentage = Fin 100\<rparr>],
            n + 1, Fin (s - mixedPenalty h vs))
      else (is, n, Fin s))"
  by (simp add: checkMixed_def mixedPenalty_def jssub_def)

text \<open>
  Each check appends at most one issue of its own type and takes its penalty off the
  score.
\<close>

lemma checkMissing_appends:
  "\<exists>e. checkMissing sheet col (is, n, Fin s) =
         (is @ e, n + length e, Fin (s - missingPenalty sheet col))
       \<and> (\<forall>i \<in> set e. issue_type i = Missing)
       \<and> (missingPenalty sheet col = 0 \<or> e \<noteq> [])"
proof (cases "jsgt (missingPercentage sheet col) (Fin 5)")
  case True
  then show ?thesis by (simp add: checkMissing_shape)
next
  case False
  then have "missingPenalty sheet col = 0"
    by (cases "missingPercentage sheet col") (simp_all add: missingPenalty_def)
  with False show ?thesis by (simp add: checkMissing_shape)
qed

lemma checkOutliers_appends:
  "\<exists>e. checkOutliers h col vs (is, n, Fin s) =
         (is @ e, n + length e, Fin (s - outlierPenalty h col vs))
       \<and> (\<forall>i \<in> set e. issue_type i = Outlier)"
proof (cases "col_type col = TNumber \<and> jsgt (outlierPercentage h vs) (Fin 1)")
  case True
  then show ?thesis by (simp add: checkOutliers_shape)
next
  case False
  then have "outlierPenalty h col vs = 0"
    by (cases "outlierPercentage h vs") (auto simp: outlierPenalty_def)
  with False show ?thesis by (simp add: checkOutliers_shape)
qed

lemma checkMixed_appends:
  "\<exists>e. checkMixed h sheet col vs (is, n, Fin s) =
         (is @ e, n + length e, Fin (s - mixedPenalty h vs))
       \<and> (\<forall>i \<in> set e. issue_type i = MixedType \<and> affectedRows i = rowCount sheet
             \<and> percentage i = Fin 100 \<and> severity i = Medium)"
proof (cases "fst (detectMixedTypes h vs)")
  case True
  then show ?thesis by (simp add: checkMixed_shape)
next
  case False
  then have "mixedPenalty h vs = 0" by (simp add: mixedPenalty_def)
  with False show ?thesis by (simp add: checkMixed_shape)
qed

text \<open>The score a column ends with is 100 less the three penalties.\<close>

lemma columnChecks_score:
  "snd (snd (columnChecks h sheet col (is, n))) =
     Fin (100 - missingPenalty sheet col
              - outlierPenalty h col (columnValues sheet col)
              - mixedPenalty h (columnValues sheet col))"
proof -
  obtain e1 where E1: "checkMissing sheet col (is, n, Fin 100) =
      (is @ e1, n + length e1, Fin (100 - missingPenalty sheet col))"
    using checkMissing_appends [of sheet col "is" n 100] by blast
  obtain e2 where E2: "checkOutliers h col (columnValues sheet col)
        (is @ e1, n + length e1, Fin (100 - missingPenalty sheet col)) =
      ((is @ e1) @ e2, (n + length e1) + length e2,
       Fin (100 - missingPenalty sheet col - outlierPenalty h col (columnValues sheet col)))"
    using checkOutliers_appends [of h col "columnValues sheet col" "is @ e1" "n + length e1"
        "100 - missingPenalty sheet col"] by blast
  obtain e3 where E3: "checkMixed h sheet col (columnValues sheet col)
        ((is @ e1) @ e2, (n + length e1) + length e2,
         Fin (100 - missingPenalty sheet col - outlierPenalty h col (columnValues sheet col))) =
      (((is @ e1) @ e2) @ e3, ((n + length e1) + length e2) + length e3,
       Fin (100 - missingPenalty sheet col - outlierPenalty h col (columnValues sheet col)
              - mixedPenalty h (columnValues sheet col)))"
    using checkMixed_appends [of h sheet col "columnValues sheet col" "(is @ e1) @ e2"
        "(n + length e1) + length e2"
        "100 - missingPenalty sheet col - outlierPenalty h col (columnValues sheet col)"]
    by blast
  show ?thesis
    unfolding columnChecks_def by (simp add: Let_def E1 E2 E3 del: append_assoc)
qed

text \<open>The issues a column's pass appends, by type.\<close>

lemma columnChecks_issues:
  "\<exists>e1 e2 e3.
     fst (columnChecks h sheet col (is, n)) = is @ e1 @ e2 @ e3
     \<and> fst (snd (columnChecks h sheet col (is, n))) = n + length (e1 @ e2 @ e3)
     \<and> fst (checkMissing sheet col (is, n, Fin 100)) = is @ e1
     \<and> (\<forall>i \<in> set e1. issue_type i = Missing)
     \<and> (\<forall>i \<in> set e2. issue_type i = Outlier)
     \<and> (\<forall>i \<in> set e3. issue_type i = MixedType \<and> affectedRows i = rowCount sheet
            \<and> percentage i = Fin 100 \<and> severity i = Medium)"
proof -
  obtain e1 where E1: "checkMissing sheet col (is, n, Fin 100) =
      (is @ e1, n + length e1, Fin (100 - missingPenalty sheet col))"
    and T1: "\<forall>i \<in> set e1. issue_type i = Missing"
    using checkMissing_appends [of sheet col "is" n 100] by blast
  obtain e2 where E2: "checkOutliers h col (columnValues sheet col)
        (is @ e1, n + length e1, Fin (100 - missingPenalty sheet col)) =
      ((is @ e1) @ e2, (n + length e1) + length e2,
       Fin (100 - missingPenalty sheet col - outlierPenalty h col (columnValues sheet col)))"
    and T2: "\<forall>i \<in> set e2. issue_type i = Outlier"
    using checkOutliers_appends [of h col "columnValues sheet col" "is @ e1" "n + length e1"
        "100 - missingPenalty sheet col"] by blast
  obtain e3 where E3: "checkMixed h sheet col (columnValues sheet col)
        ((is @ e1) @ e2, (n + length e1) + length e2,
         Fin (100 - missingPenalty sheet col - outlierPenalty h col (columnValues sheet col))) =
      (((is @ e1) @ e2) @ e3, ((n + length e1) + length e2) + length e3,
       Fin (100 - missingPenalty sheet col - outlierPenalty h col (columnValues sheet col)
              - mixedPenalty h (columnValues sheet col)))"
    and T3: "\<forall>i \<in> set e3. issue_type i = MixedType \<and> affectedRows i = rowCount sheet
            \<and> percentage i = Fin 100 \<and> severity i = Medium"
    using checkMixed_appends [of h sheet col "columnValues sheet col" "(is @ e1) @ e2"
        "(n + length e1) + length e2"
        "100 - missingPenalty sheet col - outlierPenalty h col (columnValues sheet col)"]
    by blast
  have C: "columnChecks h sheet col (is, n) =
      (((is @ e1) @ e2) @ e3, ((n + length e1) + length e2) + length e3,
       Fin (100 - missingPenalty sheet col - outlierPenalty h col (columnValues sheet col)
              - mixedPenalty h (columnValues sheet col)))"
    unfolding columnChecks_def by (simp add: Let_def E1 E2 E3 del: append_assoc)
  show ?thesis
    apply (rule exI [of _ e1], rule exI [of _ e2], rule exI [of _ e3])
    using T1 T2 T3 by (simp add: C E1)
qed

text \<open>
  C5. With \<open>p\<close> the missing percentage \<open>nullCount / rowCount * 100\<close> of a column: the
  missing check appends a \<open>Missing\<close> issue if and only if \<open>p > 5\<close>, with severity
  critical above 50, high above 25, medium above 10 and low otherwise, and takes
  \<open>min(p, 50)\<close> off the score in exactly that case; the pass over the column emits no
  other \<open>Missing\<close> issue, and the score it ends with carries that penalty and no other
  for missing values.
\<close>

theorem missing_issue_iff_above_5:
  "checkMissing sheet col (is, n, Fin s) =
     (if jsgt (missingPercentage sheet col) (Fin 5)
      then (is @ [\<lparr>issue_id = n, issue_type = Missing, column = Some (name col),
                    severity =
                      (if jsgt (missingPercentage sheet col) (Fin 50) then Critical
                       else if jsgt (missingPercentage sheet col) (Fin 25) then High
                       else if jsgt (missingPercentage sheet col) (Fin 10) then Medium
                       else Low),
                    affectedRows = nullCount col,
                    percentage = missingPercentage sheet col\<rparr>],
            n + 1,
            jssub (Fin s) (Math_min (missingPercentage sheet col) (Fin 50)))
      else (is, n, Fin s))
   \<and> missingPercentage sheet col =
       jsscale (jsdiv (Fin (real (nullCount col))) (real (rowCount sheet))) 100
   \<and> filter (\<lambda>i. issue_type i = Missing) (fst (columnChecks h sheet col ([], n))) =
       fst (checkMissing sheet col ([], n, Fin 100))
   \<and> snd (snd (columnChecks h sheet col (is, n))) =
       jssub (Fin (100 - outlierPenalty h col (columnValues sheet col)
                       - mixedPenalty h (columnValues sheet col)))
             (if jsgt (missingPercentage sheet col) (Fin 5)
              then Math_min (missingPercentage sheet col) (Fin 50) else Fin 0)"
proof -
  have A: "checkMissing sheet col (is, n, Fin s) =
     (if jsgt (missingPercentage sheet col) (Fin 5)
      then (is @ [\<lparr>issue_id = n, issue_type = Missing, column = Some (name col),
                    severity =
                      (if jsgt (missingPercentage sheet col) (Fin 50) then Critical
                       else if jsgt (missingPercentage sheet col) (Fin 25) then High
                       else if jsgt (missingPercentage sheet col) (Fin 10) then Medium
                       else Low),
                    affectedRows = nullCount col,
                    percentage = missingPercentage sheet col\<rparr>],
            n + 1,
            jssub (Fin s) (Math_min (missingPercentage sheet col) (Fin 50)))
      else (is, n, Fin s))"
    by (cases "missingPercentage sheet col")
       (simp_all add: checkMissing_def missingSeverity_def Let_def)
  obtain e1 e2 e3 where
    E: "fst (columnChecks h sheet col ([], n)) = [] @ e1 @ e2 @ e3"
    and M: "fst (checkMissing sheet col ([], n, Fin 100)) = [] @ e1"
    and T1: "\<forall>i \<in> set e1. issue_type i = Missing"
    and T2: "\<forall>i \<in> set e2. issue_type i = Outlier"
    and T3: "\<forall>i \<in> set e3. issue_type i = MixedType \<and> affectedRows i = rowCount sheet
            \<and> percentage i = Fin 100 \<and> severity i = Medium"
    using columnChecks_issues [of h sheet col "[]" n] by blast
  have F1: "filter (\<lambda>i. issue_type i = Missing) e1 = e1" using T1 by simp
  have F2: "filter (\<lambda>i. issue_type i = Missing) e2 = []" using T2 by (simp add: filter_empty_conv)
  have F3: "filter (\<lambda>i. issue_type i = Missing) e3 = []" using T3 by (simp add: filter_empty_conv)
  have B: "filter (\<lambda>i. issue_type i = Missing) (fst (columnChecks h sheet col ([], n))) =
       fst (checkMissing sheet col ([], n, Fin 100))"
    by (simp add: E M F1 F2 F3)
  have P: "(if jsgt (missingPercentage sheet col) (Fin 5)
            then Math_min (missingPercentage sheet col) (Fin 50) else Fin 0) =
           Fin (missingPenalty sheet col)"
    by (cases "missingPercentage sheet col") (simp_all add: missingPenalty_def min_def)
  have C: "snd (snd (columnChecks h sheet col (is, n))) =
       jssub (Fin (100 - outlierPenalty h col (columnValues sheet col)
                       - mixedPenalty h (columnValues sheet col)))
             (if jsgt (missingPercentage sheet col) (Fin 5)
              then Math_min (missingPercentage sheet col) (Fin 50) else Fin 0)"
    unfolding P by (simp add: columnChecks_score jssub_def)
  show ?thesis using A B C by (simp add: missingPercentage_def)
qed

theorem missing_issue_iff_above_5_witness:
  "missingPercentage sparseSheet sparseColumn = Fin 30
   \<and> checkMissing sparseSheet sparseColumn ([], 0, Fin 100) =
       ([\<lparr>issue_id = 0, issue_type = Missing, column = Some ''a'', severity = High,
           affectedRows = 3, percentage = Fin 30\<rparr>], 1, Fin 70)
   \<and> issuesOfType Missing (issues (analyzeDataQuality demoHost sparseSheet)) =
       [\<lparr>issue_id = 0, issue_type = Missing, column = Some ''a'', severity = High,
          affectedRows = 3, percentage = Fin 30\<rparr>]
   \<and> columnHealth (analyzeDataQuality demoHost sparseSheet) = [(''a'', Fin 70)]"
proof -
  have P: "missingPercentage sparseSheet sparseColumn = Fin 30" by code_simp
  have N: "name sparseColumn = ''a''" "nullCount sparseColumn = 3"
    by (simp_all add: sparseColumn_def)
  have C: "checkMissing sparseSheet sparseColumn ([], 0, Fin 100) =
       ([\<lparr>issue_id = 0, issue_type = Missing, column = Some ''a'', severity = High,
           affectedRows = 3, percentage = Fin 30\<rparr>], 1, Fin 70)"
    using missing_issue_iff_above_5 [of sparseSheet sparseColumn "[]" 0 100 demoHost]
    unfolding P N by (simp add: jssub_def)
  have I: "issuesOfType Missing (issues (analyzeDataQuality demoHost sparseSheet)) =
       [\<lparr>issue_id = 0, issue_type = Missing, column = Some ''a'', severity = High,
          affectedRows = 3, percentage = Fin 30\<rparr>]"
    by code_simp
  have H: "columnHealth (analyzeDataQuality demoHost sparseSheet) = [(''a'', Fin 70)]"
    by code_simp
  show ?thesis using P C I H by blast
qed

subsection \<open>The report\<close>

lemma set_insertBy: "set (insertBy cmp x ys) = insert x (set ys)"
  by (induction ys) auto

lemma set_sortBy: "set (sortBy cmp xs) = set xs"
  by (induction xs) (simp_all add: sortBy_def set_insertBy)

lemma length_insertBy: "length (insertBy cmp x ys) = Suc (length ys)"
  by (induction ys) auto

lemma length_sortBy: "length (sortBy cmp xs) = length xs"
  by (induction xs) (simp_all add: sortBy_def length_insertBy)

lemma Math_max_Fin: "Math_max (Fin a) (Fin b) = Fin (max a b)"
  by (simp add: max_def)

lemma Math_min_Fin: "Math_min (Fin a) (Fin b) = Fin (min a b)"
  by (simp add: min_def)

text \<open>What the pass over the columns keeps true of the mixed-type issues it has appended.\<close>

lemma columnPass_mixed:
  assumes "\<forall>i \<in> set is. issue_type i = MixedType \<longrightarrow>
             affectedRows i = rowCount sheet \<and> percentage i = Fin 100"
  shows "\<forall>i \<in> set (fst (columnPass h sheet col (is, hl, n))). issue_type i = MixedType \<longrightarrow>
             affectedRows i = rowCount sheet \<and> percentage i = Fin 100"
proof -
  obtain e1 e2 e3 where
    E: "fst (columnChecks h sheet col (is, n)) = is @ e1 @ e2 @ e3"
    and T1: "\<forall>i \<in> set e1. issue_type i = Missing"
    and T2: "\<forall>i \<in> set e2. issue_type i = Outlier"
    and T3: "\<forall>i \<in> set e3. issue_type i = MixedType \<and> affectedRows i = rowCount sheet
            \<and> percentage i = Fin 100 \<and> severity i = Medium"
    using columnChecks_issues [of h sheet col "is" n] by blast
  have "fst (columnPass h sheet col (is, hl, n)) = is @ e1 @ e2 @ e3"
    using E by (cases "columnChecks h sheet col (is, n)") (simp add: columnPass_def)
  then show ?thesis using assms T1 T2 T3 by auto
qed

lemma fold_columnPass_mixed:
  assumes "\<forall>i \<in> set (fst st). issue_type i = MixedType \<longrightarrow>
             affectedRows i = rowCount sheet \<and> percentage i = Fin 100"
  shows "\<forall>i \<in> set (fst (fold (columnPass h sheet) cols st)). issue_type i = MixedType \<longrightarrow>
             affectedRows i = rowCount sheet \<and> percentage i = Fin 100"
  using assms
proof (induction cols arbitrary: st)
  case Nil
  then show ?case by simp
next
  case (Cons c cols)
  obtain "is" hl n where S: "st = (is, hl, n)" by (cases st) auto
  have "\<forall>i \<in> set (fst (columnPass h sheet c st)). issue_type i = MixedType \<longrightarrow>
             affectedRows i = rowCount sheet \<and> percentage i = Fin 100"
    unfolding S by (rule columnPass_mixed) (use Cons.prems S in simp)
  then show ?case by (simp add: Cons.IH)
qed

lemma checkDuplicates_issues:
  "set (fst (checkDuplicates h sheet (is, n))) \<subseteq>
     set is \<union> {i. issue_type i = Duplicate \<and> column i = None}"
  by (auto simp: checkDuplicates_def Let_def)

lemma issues_analyzeDataQuality:
  "set (issues (analyzeDataQuality h sheet)) =
     set (fst (checkDuplicates h sheet
        (fst (fold (columnPass h sheet) (columns sheet) ([], [], 0)),
         snd (snd (fold (columnPass h sheet) (columns sheet) ([], [], 0))))))"
  by (simp add: analyzeDataQuality_def Let_def set_sortBy split: prod.split)

text \<open>
  C10. The mixed-type check appends its issue with \<open>affectedRows\<close> the sheet's row count
  and \<open>percentage\<close> 100, whatever the values are, and takes exactly 20 off the score;
  every mixed-type issue of a report has these two fields; and since the other two
  penalties leave at least 20, the health of a mixed column is exactly 20 below the
  rounded score it had before the check.
\<close>

theorem mixed_type_issue_fields:
  "checkMixed h sheet col vs (is, n, Fin s) =
     (if fst (detectMixedTypes h vs)
      then (is @ [\<lparr>issue_id = n, issue_type = MixedType, column = Some (name col),
                    severity = Medium, affectedRows = rowCount sheet,
                    percentage = Fin 100\<rparr>],
            n + 1, Fin (s - 20))
      else (is, n, Fin s))
   \<and> (\<forall>i \<in> set (issues (analyzeDataQuality h sheet)).
         issue_type i = MixedType \<longrightarrow>
           affectedRows i = rowCount sheet \<and> percentage i = Fin 100)
   \<and> (fst (detectMixedTypes h (columnValues sheet col)) \<longrightarrow>
         snd (snd (columnChecks h sheet col (is, n))) =
           Fin (100 - missingPenalty sheet col
                    - outlierPenalty h col (columnValues sheet col) - 20)
         \<and> Math_max (Fin 0) (Math_round (snd (snd (columnChecks h sheet col (is, n))))) =
           Fin (of_int \<lfloor>100 - missingPenalty sheet col
                           - outlierPenalty h col (columnValues sheet col) + 1 / 2\<rfloor> - 20))"
proof -
  have A: "checkMixed h sheet col vs (is, n, Fin s) =
     (if fst (detectMixedTypes h vs)
      then (is @ [\<lparr>issue_id = n, issue_type = MixedType, column = Some (name col),
                    severity = Medium, affectedRows = rowCount sheet,
                    percentage = Fin 100\<rparr>],
            n + 1, Fin (s - 20))
      else (is, n, Fin s))"
    by (simp add: checkMixed_def jssub_def)
  have F: "\<forall>i \<in> set (fst (fold (columnPass h sheet) (columns sheet) ([], [], 0))).
             issue_type i = MixedType \<longrightarrow>
               affectedRows i = rowCount sheet \<and> percentage i = Fin 100"
    by (rule fold_columnPass_mixed) simp
  have B: "\<forall>i \<in> set (issues (analyzeDataQuality h sheet)).
         issue_type i = MixedType \<longrightarrow>
           affectedRows i = rowCount sheet \<and> percentage i = Fin 100"
  proof
    fix i
    assume "i \<in> set (issues (analyzeDataQuality h sheet))"
    then have "i \<in> set (fst (fold (columnPass h sheet) (columns sheet) ([], [], 0)))
        \<or> issue_type i = Duplicate"
      using checkDuplicates_issues
        [of h sheet "fst (fold (columnPass h sheet) (columns sheet) ([], [], 0))"
            "snd (snd (fold (columnPass h sheet) (columns sheet) ([], [], 0)))"]
      by (auto simp: issues_analyzeDataQuality)
    then show "issue_type i = MixedType \<longrightarrow>
           affectedRows i = rowCount sheet \<and> percentage i = Fin 100"
      using F by auto
  qed
  have C: "fst (detectMixedTypes h (columnValues sheet col)) \<longrightarrow>
         snd (snd (columnChecks h sheet col (is, n))) =
           Fin (100 - missingPenalty sheet col
                    - outlierPenalty h col (columnValues sheet col) - 20)
         \<and> Math_max (Fin 0) (Math_round (snd (snd (columnChecks h sheet col (is, n))))) =
           Fin (of_int \<lfloor>100 - missingPenalty sheet col
                           - outlierPenalty h col (columnValues sheet col) + 1 / 2\<rfloor> - 20)"
  proof
    assume M: "fst (detectMixedTypes h (columnValues sheet col))"
    define x where "x = 100 - missingPenalty sheet col
                    - outlierPenalty h col (columnValues sheet col)"
    have X: "20 \<le> x"
      using missingPenalty_bounds [of sheet col]
        outlierPenalty_bounds [of h col "columnValues sheet col"]
      by (simp add: x_def)
    have S: "snd (snd (columnChecks h sheet col (is, n))) = Fin (x - 20)"
      using M by (simp add: columnChecks_score mixedPenalty_def x_def)
    have "\<lfloor>x - 20 + 1 / 2\<rfloor> = \<lfloor>x + 1 / 2\<rfloor> - 20"
    proof -
      have "x - 20 + 1 / 2 = (x + 1 / 2) - of_int 20" by simp
      then show ?thesis by (simp only: floor_diff_of_int)
    qed
    then have R: "Math_round (Fin (x - 20)) = Fin (of_int \<lfloor>x + 1 / 2\<rfloor> - 20)"
      by simp
    have "20 \<le> \<lfloor>x + 1 / 2\<rfloor>" using X by linarith
    then have "(0::real) \<le> of_int \<lfloor>x + 1 / 2\<rfloor> - 20" by linarith
    then have Mx: "max (0::real) (of_int \<lfloor>x + 1 / 2\<rfloor> - 20) = of_int \<lfloor>x + 1 / 2\<rfloor> - 20"
      by (rule max_absorb2)
    have "Math_max (Fin 0) (Math_round (Fin (x - 20))) =
        Fin (of_int \<lfloor>x + 1 / 2\<rfloor> - 20)"
      unfolding R Math_max_Fin Mx by (rule refl)
    then show "snd (snd (columnChecks h sheet col (is, n))) =
           Fin (100 - missingPenalty sheet col
                    - outlierPenalty h col (columnValues sheet col) - 20)
         \<and> Math_max (Fin 0) (Math_round (snd (snd (columnChecks h sheet col (is, n))))) =
           Fin (of_int \<lfloor>100 - missingPenalty sheet col
                           - outlierPenalty h col (columnValues sheet col) + 1 / 2\<rfloor> - 20)"
      using S by (simp add: x_def)
  qed
  show ?thesis using A B C by blast
qed

theorem mixed_type_issue_fields_witness:
  "fst (detectMixedTypes demoHost (columnValues mixedSheet mixedColumn))
   \<and> issues (analyzeDataQuality demoHost mixedSheet) =
       [\<lparr>issue_id = 0, issue_type = MixedType, column = Some ''m'', severity = Medium,
          affectedRows = 6, percentage = Fin 100\<rparr>]
   \<and> columnHealth (analyzeDataQuality demoHost mixedSheet) = [(''m'', Fin 80)]
   \<and> snd (snd (columnChecks demoHost mixedSheet mixedColumn ([], 0))) =
       Fin (100 - missingPenalty mixedSheet mixedColumn
                - outlierPenalty demoHost mixedColumn (columnValues mixedSheet mixedColumn) - 20)"
proof -
  have M: "fst (detectMixedTypes demoHost (columnValues mixedSheet mixedColumn))"
    by code_simp
  have I: "issues (analyzeDataQuality demoHost mixedSheet) =
       [\<lparr>issue_id = 0, issue_type = MixedType, column = Some ''m'', severity = Medium,
          affectedRows = 6, percentage = Fin 100\<rparr>]"
    by code_simp
  have H: "columnHealth (analyzeDataQuality demoHost mixedSheet) = [(''m'', Fin 80)]"
    by code_simp
  show ?thesis
    using mixed_type_issue_fields [of demoHost mixedSheet mixedColumn "[]" "[]" 0 0] M I H
    by blast
qed

subsection \<open>Score bounds\<close>

lemma set_objSet: "set (objSet kvs k v) \<subseteq> insert (k, v) (set kvs)"
  by (induction kvs) (auto split: if_splits)

lemma keys_objSet: "fst ` set (objSet kvs k v) = insert k (fst ` set kvs)"
proof (induction kvs)
  case Nil
  show ?case by simp
next
  case (Cons kv kvs)
  obtain k' v' where "kv = (k', v')" by (cases kv)
  then show ?case using Cons.IH by (cases "k' = k") (simp_all add: insert_commute)
qed

lemma set_Object_entries: "set (Object_entries obj) = set obj"
  by (auto simp: Object_entries_def)

lemma length_Object_entries: "length (Object_entries obj) = length obj"
proof -
  have "length (filter (\<lambda>kv. arrayIndex (fst kv) \<noteq> None) obj)
      + length (filter (\<lambda>kv. arrayIndex (fst kv) = None) obj) = length obj"
    by (induction obj) auto
  then show ?thesis by (simp add: Object_entries_def)
qed

lemma inScoreRange_health:
  assumes "0 \<le> x" "x \<le> 100"
  shows "inScoreRange (Math_max (Fin 0) (Math_round (Fin x)))"
proof -
  have "\<lfloor>x + 1 / 2\<rfloor> \<le> 100" using assms by linarith
  then have "(of_int \<lfloor>x + 1 / 2\<rfloor> :: real) \<le> 100" by linarith
  then show ?thesis by (simp add: Math_max_Fin inScoreRange_def)
qed

lemma columnPass_health:
  "\<exists>v. snd (columnPass h sheet col (is, hl, n)) =
         (objSet hl (name col) v, fst (snd (columnChecks h sheet col (is, n))))
       \<and> inScoreRange v"
proof -
  define x where "x = 100 - missingPenalty sheet col
     - outlierPenalty h col (columnValues sheet col) - mixedPenalty h (columnValues sheet col)"
  have X: "0 \<le> x \<and> x \<le> 100"
    using missingPenalty_bounds [of sheet col]
      outlierPenalty_bounds [of h col "columnValues sheet col"]
      mixedPenalty_bounds [of h "columnValues sheet col"]
    by (simp add: x_def)
  have S: "snd (snd (columnChecks h sheet col (is, n))) = Fin x"
    by (simp add: columnChecks_score x_def)
  have "snd (columnPass h sheet col (is, hl, n)) =
      (objSet hl (name col) (Math_max (Fin 0) (Math_round (Fin x))),
       fst (snd (columnChecks h sheet col (is, n))))"
    using S by (cases "columnChecks h sheet col (is, n)") (simp add: columnPass_def)
  then show ?thesis using X inScoreRange_health by blast
qed

lemma fold_columnPass_health:
  assumes "\<forall>kv \<in> set (fst (snd st)). inScoreRange (snd kv)"
  shows "(\<forall>kv \<in> set (fst (snd (fold (columnPass h sheet) cols st))). inScoreRange (snd kv))
       \<and> fst ` set (fst (snd (fold (columnPass h sheet) cols st))) =
           fst ` set (fst (snd st)) \<union> name ` set cols"
  using assms
proof (induction cols arbitrary: st)
  case Nil
  then show ?case by simp
next
  case (Cons c cols)
  obtain "is" hl n where S: "st = (is, hl, n)" by (cases st) auto
  obtain v where V: "snd (columnPass h sheet c (is, hl, n)) =
         (objSet hl (name c) v, fst (snd (columnChecks h sheet c (is, n))))"
    and R: "inScoreRange v"
    using columnPass_health [of h sheet c "is" hl n] by blast
  have H: "fst (snd (columnPass h sheet c st)) = objSet hl (name c) v"
    by (simp add: S V)
  have G: "\<forall>kv \<in> set (fst (snd (columnPass h sheet c st))). inScoreRange (snd kv)"
    unfolding H using set_objSet [of hl "name c" v] Cons.prems R S by auto
  have K: "fst ` set (fst (snd (columnPass h sheet c st))) =
      insert (name c) (fst ` set (fst (snd st)))"
    unfolding H by (simp add: keys_objSet S)
  show ?case using Cons.IH [OF G] K by auto
qed

lemma foldl_jsadd_range:
  assumes "\<forall>v \<in> set vs. inScoreRange v"
  shows "\<exists>S. foldl jsadd (Fin a) vs = Fin S \<and> a \<le> S \<and> S \<le> a + 100 * real (length vs)"
  using assms
proof (induction vs arbitrary: a)
  case Nil
  then show ?case by simp
next
  case (Cons v vs)
  from Cons.prems obtain t where T: "v = Fin t" "0 \<le> t" "t \<le> 100"
    by (cases v) (auto simp: inScoreRange_def)
  from Cons.prems have "\<forall>v \<in> set vs. inScoreRange v" by simp
  from Cons.IH [OF this, of "a + t"] obtain S where
    "foldl jsadd (Fin (a + t)) vs = Fin S" "a + t \<le> S" "S \<le> a + t + 100 * real (length vs)"
    by blast
  then show ?case using T by (auto simp: algebra_simps)
qed

lemma overallScore_range:
  assumes "health \<noteq> []" and "\<forall>kv \<in> set health. inScoreRange (snd kv)"
  shows "inScoreRange (Math_max (Fin 0) (Math_round (jssub
           (jsdiv (reduce_jsadd (Object_values health)) (real (length (Object_keys health))))
           (Math_min (Fin (real k * 5)) (Fin 30)))))"
proof -
  have L: "length (Object_values health) = length health"
    "length (Object_keys health) = length health"
    by (simp_all add: Object_values_def Object_keys_def length_Object_entries)
  have "\<forall>v \<in> set (Object_values health). inScoreRange v"
    using assms(2) by (auto simp: Object_values_def set_Object_entries)
  from foldl_jsadd_range [OF this, of 0] obtain S where
    S: "reduce_jsadd (Object_values health) = Fin S" "0 \<le> S"
       "S \<le> 100 * real (length health)"
    by (auto simp: reduce_jsadd_def L)
  have N: "0 < real (length health)" using assms(1) by simp
  have A: "jsdiv (reduce_jsadd (Object_values health)) (real (length (Object_keys health))) =
      Fin (S / real (length health))"
    using N by (simp add: S L)
  have A1: "0 \<le> S / real (length health)" using S N by simp
  have A2: "S / real (length health) \<le> 100"
    using S N by (simp add: pos_divide_le_eq)
  define pen where "pen = min (real k * 5) 30"
  have P: "0 \<le> pen" by (simp add: pen_def)
  have J: "jssub (Fin (S / real (length health))) (Math_min (Fin (real k * 5)) (Fin 30)) =
      Fin (S / real (length health) - pen)"
    by (simp add: Math_min_Fin jssub_def pen_def)
  have "\<lfloor>S / real (length health) - pen + 1 / 2\<rfloor> \<le> 100" using A2 P by linarith
  then have "(of_int \<lfloor>S / real (length health) - pen + 1 / 2\<rfloor> :: real) \<le> 100" by linarith
  then have "inScoreRange (Math_max (Fin 0) (Math_round (Fin (S / real (length health) - pen))))"
    by (simp add: Math_max_Fin inScoreRange_def)
  then show ?thesis by (simp only: A J)
qed

text \<open>
  C8. For a sheet with at least one column, the overall score of the report is a
  finite number in \<open>[0, 100]\<close>, and so is the health recorded under every column's
  name. (The bounds do not depend on the rows; a sheet without columns has no average
  and its overall score is NaN.)
\<close>

theorem quality_scores_in_range:
  assumes "columns sheet \<noteq> []"
  shows "inScoreRange (overallScore (analyzeDataQuality h sheet))
       \<and> (\<forall>col \<in> set (columns sheet).
            \<exists>v. objGet (columnHealth (analyzeDataQuality h sheet)) (name col) = Some v
                \<and> inScoreRange v)"
proof -
  obtain is1 health n1 where F: "fold (columnPass h sheet) (columns sheet) ([], [], 0) =
      (is1, health, n1)"
    by (cases "fold (columnPass h sheet) (columns sheet) ([], [], 0)") auto
  have "(\<forall>kv \<in> set (fst (snd (fold (columnPass h sheet) (columns sheet) ([], [], 0)))).
           inScoreRange (snd kv))
       \<and> fst ` set (fst (snd (fold (columnPass h sheet) (columns sheet) ([], [], 0)))) =
           fst ` set (fst (snd ([], [], 0))) \<union> name ` set (columns sheet)"
    using fold_columnPass_health [of "([], [], 0)" h sheet "columns sheet"] by simp
  then have G: "\<forall>kv \<in> set health. inScoreRange (snd kv)"
    and K: "fst ` set health = name ` set (columns sheet)"
    by (simp_all add: F)
  have NE: "health \<noteq> []" using K assms by auto
  have O: "overallScore (analyzeDataQuality h sheet) =
      Math_max (Fin 0) (Math_round (jssub
           (jsdiv (reduce_jsadd (Object_values health)) (real (length (Object_keys health))))
           (Math_min (Fin (real (length (sortBy bySeverity
               (fst (checkDuplicates h sheet (is1, n1))))) * 5)) (Fin 30))))"
    by (simp add: analyzeDataQuality_def F Let_def)
  have H: "columnHealth (analyzeDataQuality h sheet) = health"
    by (simp add: analyzeDataQuality_def F Let_def)
  have A: "inScoreRange (overallScore (analyzeDataQuality h sheet))"
    unfolding O by (rule overallScore_range [OF NE G])
  have B: "\<forall>col \<in> set (columns sheet).
            \<exists>v. objGet (columnHealth (analyzeDataQuality h sheet)) (name col) = Some v
                \<and> inScoreRange v"
  proof
    fix col
    assume "col \<in> set (columns sheet)"
    then have "name col \<in> fst ` set health" using K by auto
    then obtain v where V: "map_of health (name col) = Some v"
      by (metis domD dom_map_of_conv_image_fst)
    then have "(name col, v) \<in> set health" by (rule map_of_SomeD)
    then have "inScoreRange v" using G by auto
    then show "\<exists>v. objGet (columnHealth (analyzeDataQuality h sheet)) (name col) = Some v
                \<and> inScoreRange v"
      using V by (simp add: H objGet_def)
  qed
  show ?thesis using A B by blast
qed

theorem quality_scores_in_range_witness:
  "columns outlierSheet \<noteq> []
   \<and> inScoreRange (overallScore (analyzeDataQuality demoHost outlierSheet))
   \<and> overallScore (analyzeDataQuality demoHost outlierSheet) = Fin 60
   \<and> objGet (columnHealth (analyzeDataQuality demoHost outlierSheet)) ''v'' = Some (Fin 70)"
proof -
  have C: "columns outlierSheet \<noteq> []" by (simp add: outlierSheet_def)
  have S: "overallScore (analyzeDataQuality demoHost outlierSheet) = Fin 60" by code_simp
  have V: "objGet (columnHealth (analyzeDataQuality demoHost outlierSheet)) ''v'' = Some (Fin 70)"
    by code_simp
  show ?thesis using quality_scores_in_range [OF C, of demoHost] C S V by blast
qed

subsection \<open>Duplicate rows\<close>

lemma mset_insertBy: "mset (insertBy cmp x ys) = add_mset x (mset ys)"
  by (induction ys) auto

lemma mset_sortBy: "mset (sortBy cmp xs) = mset xs"
  by (induction xs) (simp_all add: sortBy_def mset_insertBy)

lemma objGet_objSet_keys:
  "objGet seen k = None \<longleftrightarrow> k \<notin> fst ` set seen"
  by (simp add: objGet_def map_of_eq_None_iff)

text \<open>
  The loop of \<^verbatim>\<open>findDuplicates\<close>: the keys of \<open>seen\<close> are the keys met so far, every
  count is positive, and \<open>duplicateRows\<close> grows by one for each row whose key was
  already there.
\<close>

lemma findDuplicates_fold:
  assumes "\<forall>kv \<in> set seen. 0 < snd kv"
  shows "\<exists>seen' d'. fold (findDuplicatesStep h) rs (seen, d) = (seen', d')
       \<and> fst ` set seen' = fst ` set seen \<union> JSON_stringify h ` set rs
       \<and> (\<forall>kv \<in> set seen'. 0 < snd kv)
       \<and> d' + card (fst ` set seen') = d + card (fst ` set seen) + length rs"
  using assms
proof (induction rs arbitrary: seen d)
  case Nil
  then show ?case by simp
next
  case (Cons r rs)
  define key where "key = JSON_stringify h r"
  define count where "count = (case objGet seen key of None \<Rightarrow> 0 | Some c \<Rightarrow> c)"
  define seen1 where "seen1 = objSet seen key (count + 1)"
  define d1 where "d1 = (if 0 < count then d + 1 else d)"
  have step: "findDuplicatesStep h r (seen, d) = (seen1, d1)"
    by (simp add: findDuplicatesStep_def Let_def key_def count_def seen1_def d1_def)
  have pos1: "\<forall>kv \<in> set seen1. 0 < snd kv"
    using set_objSet [of seen key "count + 1"] Cons.prems by (auto simp: seen1_def)
  have keys1: "fst ` set seen1 = insert key (fst ` set seen)"
    by (simp add: seen1_def keys_objSet)
  have cnt: "0 < count \<longleftrightarrow> key \<in> fst ` set seen"
  proof (cases "objGet seen key")
    case None
    then show ?thesis using objGet_objSet_keys [of seen key] by (simp add: count_def)
  next
    case (Some c)
    then have "(key, c) \<in> set seen" by (simp add: objGet_def map_of_SomeD)
    then have "0 < c" "key \<in> fst ` set seen" using Cons.prems by force+
    then show ?thesis using Some by (simp add: count_def)
  qed
  have fin: "finite (fst ` set seen)" by simp
  have acc: "d1 + card (fst ` set seen1) = d + card (fst ` set seen) + 1"
  proof (cases "key \<in> fst ` set seen")
    case True
    then show ?thesis using cnt by (simp add: d1_def keys1 insert_absorb)
  next
    case False
    then show ?thesis using cnt fin by (simp add: d1_def keys1)
  qed
  from Cons.IH [OF pos1, of d1] obtain seen' d' where
    F: "fold (findDuplicatesStep h) rs (seen1, d1) = (seen', d')"
    and K: "fst ` set seen' = fst ` set seen1 \<union> JSON_stringify h ` set rs"
    and P: "\<forall>kv \<in> set seen'. 0 < snd kv"
    and C: "d' + card (fst ` set seen') = d1 + card (fst ` set seen1) + length rs"
    by blast
  have "fold (findDuplicatesStep h) (r # rs) (seen, d) = (seen', d')"
    by (simp add: step F)
  moreover have "fst ` set seen' = fst ` set seen \<union> JSON_stringify h ` set (r # rs)"
    using K keys1 by (auto simp: key_def)
  moreover have "d' + card (fst ` set seen') = d + card (fst ` set seen) + length (r # rs)"
    using C acc by simp
  ultimately show ?case using P by blast
qed

text \<open>The rows counted as duplicates are the rows beyond the first of each key.\<close>

lemma findDuplicates_count:
  "fst (findDuplicates h rs) + card (JSON_stringify h ` set rs) = length rs"
proof -
  obtain seen' d' where
    F: "fold (findDuplicatesStep h) rs ([], 0) = (seen', d')"
    and K: "fst ` set seen' = fst ` set [] \<union> JSON_stringify h ` set rs"
    and C: "d' + card (fst ` set seen') = 0 + card (fst ` set ([] :: (string \<times> nat) list)) + length rs"
    using findDuplicates_fold [of "[]" h rs 0] by auto
  have "fst (findDuplicates h rs) = d'" by (simp add: findDuplicates_def F)
  then show ?thesis using K C by simp
qed

lemma fold_columnPass_no_duplicate:
  assumes "\<forall>i \<in> set (fst st). issue_type i \<noteq> Duplicate"
  shows "\<forall>i \<in> set (fst (fold (columnPass h sheet) cols st)). issue_type i \<noteq> Duplicate"
  using assms
proof (induction cols arbitrary: st)
  case Nil
  then show ?case by simp
next
  case (Cons c cols)
  obtain "is" hl n where S: "st = (is, hl, n)" by (cases st) auto
  obtain e1 e2 e3 where
    E: "fst (columnChecks h sheet c (is, n)) = is @ e1 @ e2 @ e3"
    and T1: "\<forall>i \<in> set e1. issue_type i = Missing"
    and T2: "\<forall>i \<in> set e2. issue_type i = Outlier"
    and T3: "\<forall>i \<in> set e3. issue_type i = MixedType \<and> affectedRows i = rowCount sheet
            \<and> percentage i = Fin 100 \<and> severity i = Medium"
    using columnChecks_issues [of h sheet c "is" n] by blast
  have "fst (columnPass h sheet c (is, hl, n)) = is @ e1 @ e2 @ e3"
    using E by (cases "columnChecks h sheet c (is, n)") (simp add: columnPass_def)
  then have "\<forall>i \<in> set (fst (columnPass h sheet c st)). issue_type i \<noteq> Duplicate"
    using Cons.prems T1 T2 T3 S by auto
  then show ?case by (simp add: Cons.IH)
qed

text \<open>
  C7, as the code has it. In a sheet of 20 rows with 15 different rows (so 5 rows repeat
  an earlier one), where different rows have different serialisations, the report has
  exactly one duplicate issue; it has no column, 5 affected rows and percentage 25, and
  its severity is high, since 25 exceeds 20.
\<close>

theorem duplicates_5_of_20:
  assumes "length (rows sheet) = 20" and "rowCount sheet = 20"
    and "card (set (rows sheet)) = 15"
    and "inj_on (JSON_stringify h) (set (rows sheet))"
  shows "\<exists>n. issuesOfType Duplicate (issues (analyzeDataQuality h sheet)) =
           [\<lparr>issue_id = n, issue_type = Duplicate, column = None, severity = High,
              affectedRows = 5, percentage = Fin 25\<rparr>]"
proof -
  obtain is1 health n1 where F: "fold (columnPass h sheet) (columns sheet) ([], [], 0) =
      (is1, health, n1)"
    by (cases "fold (columnPass h sheet) (columns sheet) ([], [], 0)") auto
  have "\<forall>i \<in> set (fst (fold (columnPass h sheet) (columns sheet) ([], [], 0))).
          issue_type i \<noteq> Duplicate"
    using fold_columnPass_no_duplicate [of "([], [], 0)" h sheet "columns sheet"] by simp
  then have N1: "filter (\<lambda>i. issue_type i = Duplicate) is1 = []"
    by (simp add: F filter_empty_conv)
  have "card (JSON_stringify h ` set (rows sheet)) = 15"
    using assms(3, 4) by (simp add: card_image)
  then have D: "fst (findDuplicates h (rows sheet)) = 5"
    using findDuplicates_count [of h "rows sheet"] assms(1) by simp
  define dup where "dup = \<lparr>issue_id = n1, issue_type = Duplicate, column = None,
      severity = High, affectedRows = 5, percentage = Fin 25\<rparr>"
  have CD: "fst (checkDuplicates h sheet (is1, n1)) = is1 @ [dup]"
    by (simp add: checkDuplicates_def D assms(2) Let_def duplicateSeverity_def dup_def)
  have I: "issues (analyzeDataQuality h sheet) = sortBy bySeverity (is1 @ [dup])"
    by (simp add: analyzeDataQuality_def F Let_def CD)
  have "mset (filter (\<lambda>i. issue_type i = Duplicate) (sortBy bySeverity (is1 @ [dup]))) =
      mset (filter (\<lambda>i. issue_type i = Duplicate) (is1 @ [dup]))"
    by (simp only: mset_filter mset_sortBy)
  also have "\<dots> = {#dup#}" by (simp add: N1 dup_def)
  finally have "filter (\<lambda>i. issue_type i = Duplicate) (sortBy bySeverity (is1 @ [dup])) = [dup]"
    by (simp only: mset_single_iff)
  then show ?thesis by (auto simp: issuesOfType_def I dup_def)
qed

theorem duplicates_5_of_20_witness:
  "length (rows duplicateSheet) = 20 \<and> rowCount duplicateSheet = 20
   \<and> card (set (rows duplicateSheet)) = 15
   \<and> inj_on (JSON_stringify demoHost) (set (rows duplicateSheet))
   \<and> (\<exists>n. issuesOfType Duplicate (issues (analyzeDataQuality demoHost duplicateSheet)) =
           [\<lparr>issue_id = n, issue_type = Duplicate, column = None, severity = High,
              affectedRows = 5, percentage = Fin 25\<rparr>])"
proof -
  have L: "length (rows duplicateSheet) = 20" by (simp add: duplicateSheet_def)
  have R: "rowCount duplicateSheet = 20" by (simp add: duplicateSheet_def)
  have C: "card (set (rows duplicateSheet)) = 15" by code_simp
  have "distinct (map (JSON_stringify demoHost) (remdups (rows duplicateSheet)))"
    by code_simp
  then have "inj_on (JSON_stringify demoHost) (set (remdups (rows duplicateSheet)))"
    by (simp only: distinct_map)
  then have J: "inj_on (JSON_stringify demoHost) (set (rows duplicateSheet))" by simp
  show ?thesis using duplicates_5_of_20 [OF L R C J] L R C J by blast
qed

text \<open>
  At these twenty rows the one duplicate issue has severity high, not medium: the
  percentage 25 is above the threshold 20 of \<^verbatim>\<open>analyzeDataQuality\<close>.
\<close>

theorem duplicates_5_of_20_severity_counterexample:
  "issuesOfType Duplicate (issues (analyzeDataQuality demoHost duplicateSheet)) =
     [\<lparr>issue_id = 0, issue_type = Duplicate, column = None, severity = High,
        affectedRows = 5, percentage = Fin 25\<rparr>]"
  by code_simp

section \<open>Properties of type inference\<close>

lemma ratio_above_80: "0 < n \<Longrightarrow> (real k / real n > 0.8) = (4 * n < 5 * k)"
proof -
  assume N: "0 < n"
  have "(real k / real n > 0.8) = (4 * real n < 5 * real k)"
    using N by (simp add: field_simps)
  also have "\<dots> = (real (4 * n) < real (5 * k))" by simp
  also have "\<dots> = (4 * n < 5 * k)" by (simp only: of_nat_less_iff)
  finally show ?thesis .
qed

lemma countDateLike_textOrDate:
  assumes "\<forall>v \<in> set vs. textOrDate v"
  shows "countDateLike h vs = Inr (length (filter (\<lambda>v. dateLike h v = Inr True) vs))"
  using assms
proof (induction vs)
  case Nil
  show ?case by simp
next
  case (Cons v vs)
  then have IH: "countDateLike h vs = Inr (length (filter (\<lambda>v. dateLike h v = Inr True) vs))"
    by simp
  from Cons.prems have "textOrDate v" by simp
  then show ?case
    by (cases v) (simp_all add: IH dateLike_def)
qed

text \<open>
  C1, as the code has it. After null, undefined and the empty string are filtered out:
  nothing left gives \<open>string\<close>; otherwise the boolean, number and date tests are tried in
  this order and the first whose share of the remaining values is strictly above 80%
  (\<open>5 k > 4 n\<close>) decides, with \<open>string\<close> when none is. At exactly 80% a test does not
  decide. The last part is stated for columns whose remaining values are strings and
  dates, on which the date test is a boolean.
\<close>

theorem detectColumnType_strict_threshold:
  fixes h :: host and vs :: "cell list"
  defines "nn \<equiv> filter nonNull vs"
  defines "b \<equiv> length (filter booleanLike nn)"
  defines "m \<equiv> length (filter (numberLike h) nn)"
  defines "d \<equiv> length (filter (\<lambda>v. dateLike h v = Inr True) nn)"
  shows "(nn = [] \<longrightarrow> detectColumnType h vs = Inr TString)
   \<and> (nn \<noteq> [] \<and> 4 * length nn < 5 * b \<longrightarrow> detectColumnType h vs = Inr TBoolean)
   \<and> (nn \<noteq> [] \<and> 5 * b \<le> 4 * length nn \<and> 4 * length nn < 5 * m \<longrightarrow>
        detectColumnType h vs = Inr TNumber)
   \<and> (nn \<noteq> [] \<and> 5 * b \<le> 4 * length nn \<and> 5 * m \<le> 4 * length nn
        \<and> (\<forall>v \<in> set nn. textOrDate v) \<longrightarrow>
        detectColumnType h vs = Inr (if 4 * length nn < 5 * d then TDate else TString))"
proof -
  have A: "nn = [] \<longrightarrow> detectColumnType h vs = Inr TString"
    by (simp add: detectColumnType_def nn_def)
  have R: "\<And>k. nn \<noteq> [] \<Longrightarrow> (real k / real (length nn) > 0.8) = (4 * length nn < 5 * k)"
    by (rule ratio_above_80) simp
  have B: "nn \<noteq> [] \<and> 4 * length nn < 5 * b \<longrightarrow> detectColumnType h vs = Inr TBoolean"
  proof
    assume H: "nn \<noteq> [] \<and> 4 * length nn < 5 * b"
    then have "real b / real (length nn) > 0.8" using R by blast
    then show "detectColumnType h vs = Inr TBoolean"
      using H unfolding detectColumnType_def Let_def nn_def b_def by simp
  qed
  have C: "nn \<noteq> [] \<and> 5 * b \<le> 4 * length nn \<and> 4 * length nn < 5 * m \<longrightarrow>
        detectColumnType h vs = Inr TNumber"
  proof
    assume H: "nn \<noteq> [] \<and> 5 * b \<le> 4 * length nn \<and> 4 * length nn < 5 * m"
    then have "\<not> real b / real (length nn) > 0.8" "real m / real (length nn) > 0.8"
      using R [of b] R [of m] by auto
    then show "detectColumnType h vs = Inr TNumber"
      using H unfolding detectColumnType_def Let_def nn_def b_def m_def by simp
  qed
  have D: "nn \<noteq> [] \<and> 5 * b \<le> 4 * length nn \<and> 5 * m \<le> 4 * length nn
        \<and> (\<forall>v \<in> set nn. textOrDate v) \<longrightarrow>
        detectColumnType h vs = Inr (if 4 * length nn < 5 * d then TDate else TString)"
  proof
    assume H: "nn \<noteq> [] \<and> 5 * b \<le> 4 * length nn \<and> 5 * m \<le> 4 * length nn
        \<and> (\<forall>v \<in> set nn. textOrDate v)"
    then have N: "\<not> real b / real (length nn) > 0.8" "\<not> real m / real (length nn) > 0.8"
      using R [of b] R [of m] by auto
    have CD: "countDateLike h nn = Inr d"
      unfolding d_def using H by (simp add: countDateLike_textOrDate)
    have "(real d / real (length nn) > 0.8) = (4 * length nn < 5 * d)"
      using H R [of d] by blast
    then show "detectColumnType h vs =
        Inr (if 4 * length nn < 5 * d then TDate else TString)"
      using H N CD unfolding detectColumnType_def Let_def nn_def [symmetric] b_def [symmetric]
        m_def [symmetric]
      by simp
  qed
  show ?thesis using A B C D by blast
qed

theorem detectColumnType_strict_threshold_witness:
  "filter nonNull [Num 1, Null, Num 2, Str []] \<noteq> []
   \<and> 4 * length (filter nonNull [Num 1, Null, Num 2, Str []])
       < 5 * length (filter (numberLike demoHost) (filter nonNull [Num 1, Null, Num 2, Str []]))
   \<and> detectColumnType demoHost [Num 1, Null, Num 2, Str []] = Inr TNumber
   \<and> detectColumnType demoHost [Str ''abc'', Str ''def''] = Inr TString"
proof -
  have E: "filter nonNull [Num 1, Null, Num 2, Str []] = [Num 1, Num 2]"
    by (simp add: nonNull_def)
  have B: "filter booleanLike [Num 1, Num 2] = []" by (simp add: booleanLike_def)
  have M: "filter (numberLike demoHost) [Num 1, Num 2] = [Num 1, Num 2]"
    by (simp add: numberLike_def)
  have N: "detectColumnType demoHost [Num 1, Null, Num 2, Str []] = Inr TNumber"
    using detectColumnType_strict_threshold [of "[Num 1, Null, Num 2, Str []]" demoHost]
    unfolding E B M by simp
  have E2: "filter nonNull [Str ''abc'', Str ''def''] = [Str ''abc'', Str ''def'']"
    by (simp add: nonNull_def)
  have B2: "filter booleanLike [Str ''abc'', Str ''def''] = []"
    by (simp add: booleanLike_def)
  have M2: "filter (numberLike demoHost) [Str ''abc'', Str ''def''] = []"
    by code_simp
  have D2: "filter (\<lambda>v. dateLike demoHost v = Inr True) [Str ''abc'', Str ''def''] = []"
    by code_simp
  have S: "detectColumnType demoHost [Str ''abc'', Str ''def''] = Inr TString"
    using detectColumnType_strict_threshold [of "[Str ''abc'', Str ''def'']" demoHost]
    unfolding E2 B2 M2 D2 by simp
  show ?thesis using E M N S by simp
qed

text \<open>
  Four booleans and a number: the boolean test holds for exactly 80% of the values, and
  the inferred type is \<open>number\<close>, not \<open>boolean\<close>.
\<close>

theorem detectColumnType_at_80_percent_counterexample:
  "real (length (filter booleanLike
      (filter nonNull [Bool True, Bool True, Bool True, Bool True, Num 7])))
     / real (length (filter nonNull [Bool True, Bool True, Bool True, Bool True, Num 7]))
     \<ge> 0.8
   \<and> detectColumnType demoHost [Bool True, Bool True, Bool True, Bool True, Num 7] = Inr TNumber"
  by code_simp

section \<open>Properties of the histogram\<close>

text \<open>
  C4 against the code. For a numeric column whose numeric values are all the same
  \<open>c = min = max\<close>, the bin width is 0, every bin index is \<open>0 / 0\<close>, that is NaN, and no bin
  is incremented: the histogram has \<open>min(10, \<lceil>\<surd>n\<rceil>)\<close> bins and every count is 0.
\<close>

theorem histogram_constant_column_all_zero:
  assumes "col_type col = TNumber" and "col_min col = Some c" and "col_max col = Some c"
    and "profileNumericValues h values = replicate n c" and "0 < n"
  shows "profileHistogram h col values =
           Some (replicate (min 10 (nat \<lceil>sqrt (real n)\<rceil>)) 0)"
proof -
  have Z: "orZero (col_min col) = c" "orZero (col_max col) = c"
    using assms(2, 3) by (simp_all add: orZero_def)
  have I: "\<And>bc v. binIndexOf col bc 0 c = NaN"
    using Z by (simp add: binIndexOf_def)
  have G: "\<And>bc bins. ((\<lambda>bins. bumpBin bins (binIndexOf col bc 0 c)) ^^ n) bins = bins"
  proof -
    fix bc bins
    show "((\<lambda>bins. bumpBin bins (binIndexOf col bc 0 c)) ^^ n) bins = bins"
      by (induction n) (simp_all add: I bumpBin_def)
  qed
  show ?thesis
    unfolding profileHistogram_def Let_def assms(4) Z
    using assms(1, 5) by (simp add: G)
qed

theorem histogram_constant_column_all_zero_witness:
  "col_type constantColumn = TNumber \<and> col_min constantColumn = Some 5
   \<and> col_max constantColumn = Some 5
   \<and> profileNumericValues demoHost [Num 5, Num 5, Num 5, Num 5] = replicate 4 5
   \<and> profileHistogram demoHost constantColumn [Num 5, Num 5, Num 5, Num 5] = Some [0, 0]"
proof -
  have T: "col_type constantColumn = TNumber" "col_min constantColumn = Some 5"
    "col_max constantColumn = Some 5"
    by (simp_all add: constantColumn_def)
  have V: "profileNumericValues demoHost [Num 5, Num 5, Num 5, Num 5] = replicate 4 5"
    by (simp add: profileNumericValues_def nonNull_def List.map_filter_simps eval_nat_numeral)
  have "sqrt (real 4) = 2" by simp
  then have S: "min 10 (nat \<lceil>sqrt (real 4)\<rceil>) = 2" by simp
  have "profileHistogram demoHost constantColumn [Num 5, Num 5, Num 5, Num 5] =
      Some (replicate (min 10 (nat \<lceil>sqrt (real 4)\<rceil>)) 0)"
    by (rule histogram_constant_column_all_zero [OF T V]) simp
  then have "profileHistogram demoHost constantColumn [Num 5, Num 5, Num 5, Num 5] = Some [0, 0]"
    unfolding S by (simp add: eval_nat_numeral)
  then show ?thesis using T V by blast
qed

section \<open>Properties of the profile's correlations\<close>

lemma reduce_add_from: "foldl (+) a xs = a + sum_list xs"
  by (induction xs arbitrary: a) (simp_all add: add.assoc)

lemma reduce_add_sum_list: "reduce_add xs = sum_list xs"
  by (simp add: reduce_add_def reduce_add_from)












section \<open>Properties of the aggregation\<close>

subsection \<open>Group keys\<close>

lemma truthy_iff: "truthy v \<longleftrightarrow> v \<notin> {Null, Undefined, Num 0, Str [], Bool False}"
  by (cases v) auto

subsection \<open>The groups after the loop\<close>

lemma map_of_objSet: "map_of (objSet g k v) = (map_of g)(k \<mapsto> v)"
  by (induction g) (auto simp: fun_eq_iff)

lemma keys_objSet_list:
  "map fst (objSet g k v) = (if k \<in> set (map fst g) then map fst g else map fst g @ [k])"
proof (induction g)
  case Nil
  show ?case by simp
next
  case (Cons kv g)
  obtain k' v' where KV: "kv = (k', v')" by (cases kv)
  show ?case
  proof (cases "k' = k")
    case True
    then show ?thesis by (simp add: KV)
  next
    case False
    then show ?thesis using Cons.IH by (simp add: KV)
  qed
qed

lemma keys_objPush: "map fst (objPush g k x) = map fst g"
  by (induction g) (simp_all add: objPush_def)

lemma map_of_objPush:
  "map_of (objPush g k x) k' =
     (if k' = k then map_option (\<lambda>vs. vs @ [x]) (map_of g k) else map_of g k')"
  by (induction g) (auto simp: objPush_def)

text \<open>The values a list of rows contributes to the group \<open>k\<close>, in row order.\<close>

lemma keys_ownStep:
  "map fst (ownStep h gb ac r g) =
     (if groupKey h gb r \<in> set (map fst g) then map fst g else map fst g @ [groupKey h gb r])"
proof -
  have N: "(objGet g (groupKey h gb r) = None) = (groupKey h gb r \<notin> set (map fst g))"
    by (simp add: objGet_def map_of_eq_None_iff)
  show ?thesis
    unfolding ownStep_def Let_def N
    by (cases "Number h (field r ac)") (auto simp: keys_objPush keys_objSet_list)
qed

lemma map_of_ownStep:
  "map_of (ownStep h gb ac r g) k =
     (if k = groupKey h gb r
      then Some ((case map_of g k of None \<Rightarrow> [] | Some vs \<Rightarrow> vs)
                 @ (case Number h (field r ac) of None \<Rightarrow> [] | Some x \<Rightarrow> [x]))
      else map_of g k)"
  unfolding ownStep_def Let_def
  by (cases "Number h (field r ac)"; cases "map_of g (groupKey h gb r)")
     (auto simp: objGet_def map_of_objPush map_of_objSet)

lemma map_filter_append_single:
  "List.map_filter f (xs @ [x]) = List.map_filter f xs @ (case f x of None \<Rightarrow> [] | Some y \<Rightarrow> [y])"
  by (induction xs) (auto split: option.split)

lemma fold_ownStep:
  "distinct (map fst g) \<Longrightarrow>
   distinct (map fst (fold (ownStep h gb ac) rs g))
   \<and> set (map fst (fold (ownStep h gb ac) rs g)) =
       set (map fst g) \<union> groupKey h gb ` set rs
   \<and> (\<forall>k. map_of (fold (ownStep h gb ac) rs g) k =
        (if k \<in> set (map fst g) \<union> groupKey h gb ` set rs
         then Some ((case map_of g k of None \<Rightarrow> [] | Some vs \<Rightarrow> vs)
                @ List.map_filter (\<lambda>r. Number h (field r ac))
                    (filter (\<lambda>r. groupKey h gb r = k) rs))
         else None))"
proof (induction rs arbitrary: g rule: rev_induct)
  case Nil
  have X: "\<forall>k. map_of g k =
      (if k \<in> set (map fst g) \<union> groupKey h gb ` set []
       then Some ((case map_of g k of None \<Rightarrow> [] | Some vs \<Rightarrow> vs)
              @ List.map_filter (\<lambda>r. Number h (field r ac))
                  (filter (\<lambda>r. groupKey h gb r = k) []))
       else None)"
  proof
    fix k
    have "(k \<in> set (map fst g)) = (map_of g k \<noteq> None)"
      by (simp add: map_of_eq_None_iff)
    then show "map_of g k =
      (if k \<in> set (map fst g) \<union> groupKey h gb ` set []
       then Some ((case map_of g k of None \<Rightarrow> [] | Some vs \<Rightarrow> vs)
              @ List.map_filter (\<lambda>r. Number h (field r ac))
                  (filter (\<lambda>r. groupKey h gb r = k) []))
       else None)"
      by (cases "map_of g k") simp_all
  qed
  have Y: "set (map fst g) = set (map fst g) \<union> groupKey h gb ` set []" by simp
  show ?case unfolding fold_simps(1) id_apply using Nil X Y by blast
next
  case (snoc r rs)
  define G where "G = fold (ownStep h gb ac) rs g"
  define key where "key = groupKey h gb r"
  from snoc.IH [OF snoc.prems] have
    D: "distinct (map fst G)"
    and K: "set (map fst G) = set (map fst g) \<union> groupKey h gb ` set rs"
    and M: "\<And>k. map_of G k =
        (if k \<in> set (map fst g) \<union> groupKey h gb ` set rs
         then Some ((case map_of g k of None \<Rightarrow> [] | Some vs \<Rightarrow> vs)
                @ List.map_filter (\<lambda>r. Number h (field r ac))
                    (filter (\<lambda>r. groupKey h gb r = k) rs))
         else None)"
    by (simp_all add: G_def)
  have F: "fold (ownStep h gb ac) (rs @ [r]) g = ownStep h gb ac r G"
    by (simp add: G_def)
  have D': "distinct (map fst (ownStep h gb ac r G))"
    using D by (simp add: keys_ownStep)
  have K': "set (map fst (ownStep h gb ac r G)) =
      set (map fst g) \<union> groupKey h gb ` set (rs @ [r])"
    using K by (auto simp: keys_ownStep)
  have M': "\<And>k. map_of (ownStep h gb ac r G) k =
        (if k \<in> set (map fst g) \<union> groupKey h gb ` set (rs @ [r])
         then Some ((case map_of g k of None \<Rightarrow> [] | Some vs \<Rightarrow> vs)
                @ List.map_filter (\<lambda>r. Number h (field r ac))
                    (filter (\<lambda>r. groupKey h gb r = k) (rs @ [r])))
         else None)"
  proof -
    fix k
    show "map_of (ownStep h gb ac r G) k =
        (if k \<in> set (map fst g) \<union> groupKey h gb ` set (rs @ [r])
         then Some ((case map_of g k of None \<Rightarrow> [] | Some vs \<Rightarrow> vs)
                @ List.map_filter (\<lambda>r. Number h (field r ac))
                    (filter (\<lambda>r. groupKey h gb r = k) (rs @ [r])))
         else None)"
    proof (cases "k = groupKey h gb r")
      case False
      then show ?thesis by (simp add: map_of_ownStep M)
    next
      case True
      show ?thesis
      proof (cases "k \<in> set (map fst g) \<union> groupKey h gb ` set rs")
        case In: True
        then show ?thesis
          using True
          by (simp add: map_of_ownStep M map_filter_append_single)
      next
        case Out: False
        then have "k \<notin> set (map fst g)" by simp
        then have G0: "map_of g k = None" by (simp add: map_of_eq_None_iff)
        have R0: "filter (\<lambda>r. groupKey h gb r = k) rs = []"
          using Out by (auto simp: filter_empty_conv)
        show ?thesis
          using Out G0 R0 unfolding True
          by (simp add: map_of_ownStep M map_filter_append_single split: option.split)
      qed
    qed
  qed
  show ?case unfolding F using D' K' M' by blast
qed

lemma ownGroups_set:
  "set (ownGroups h data gb ac) =
     (\<lambda>k. (k, List.map_filter (\<lambda>r. Number h (field r ac))
                 (filter (\<lambda>r. groupKey h gb r = k) data))) ` (groupKey h gb ` set data)"
  and ownGroups_distinct: "distinct (map fst (ownGroups h data gb ac))"
proof -
  define G where "G = ownGroups h data gb ac"
  have "distinct (map fst ([] :: (string \<times> real list) list))" by simp
  from fold_ownStep [OF this, of h gb ac data] have
    D: "distinct (map fst G)"
    and K: "set (map fst G) = groupKey h gb ` set data"
    and M: "\<And>k. map_of G k =
        (if k \<in> groupKey h gb ` set data
         then Some (List.map_filter (\<lambda>r. Number h (field r ac))
                    (filter (\<lambda>r. groupKey h gb r = k) data))
         else None)"
    by (simp_all add: G_def ownGroups_def)
  show "distinct (map fst (ownGroups h data gb ac))" using D by (simp add: G_def)
  have "\<And>k vs. ((k, vs) \<in> set G) =
      (k \<in> groupKey h gb ` set data
       \<and> vs = List.map_filter (\<lambda>r. Number h (field r ac))
                 (filter (\<lambda>r. groupKey h gb r = k) data))"
  proof -
    fix k vs
    have "((k, vs) \<in> set G) = (map_of G k = Some vs)" using D by simp
    then show "((k, vs) \<in> set G) =
      (k \<in> groupKey h gb ` set data
       \<and> vs = List.map_filter (\<lambda>r. Number h (field r ac))
                 (filter (\<lambda>r. groupKey h gb r = k) data))"
      by (auto simp: M)
  qed
  then show "set (ownGroups h data gb ac) =
     (\<lambda>k. (k, List.map_filter (\<lambda>r. Number h (field r ac))
                 (filter (\<lambda>r. groupKey h gb r = k) data))) ` (groupKey h gb ` set data)"
    unfolding G_def [symmetric] by (auto simp: image_iff)
qed

subsection \<open>Entry order, sorting and truncation\<close>

lemma mset_Object_entries: "mset (Object_entries obj) = mset obj"
proof -
  have "mset (filter (\<lambda>kv. arrayIndex (fst kv) \<noteq> None) obj)
      + mset (filter (\<lambda>kv. arrayIndex (fst kv) = None) obj) = mset obj"
    by (induction obj) auto
  then show ?thesis by (simp add: Object_entries_def)
qed

lemma distinct_keys_Object_entries:
  "distinct (map fst (Object_entries obj)) = distinct (map fst obj)"
proof -
  have "mset (map fst (Object_entries obj)) = mset (map fst obj)"
    by (simp only: mset_map mset_Object_entries)
  then show ?thesis by (rule mset_eq_imp_distinct_iff)
qed

lemma jsge_by_comparator:
  "x \<noteq> NaN \<Longrightarrow> y \<noteq> NaN \<Longrightarrow> (\<not> jsgt (jssub y x) (Fin 0)) = jsge x y"
  by (cases x; cases y) (auto simp: jssub_def jsge_def)

lemma jsge_trans: "jsge a b \<Longrightarrow> jsge b c \<Longrightarrow> jsge a c"
  by (cases a; cases b; cases c) (auto simp: jsge_def)

lemma jsge_total: "a \<noteq> NaN \<Longrightarrow> b \<noteq> NaN \<Longrightarrow> \<not> jsge a b \<Longrightarrow> jsge b a"
  by (cases a; cases b) (auto simp: jsge_def)

lemma sorted_insertBy_byValueDesc:
  assumes "\<forall>p \<in> insert x (set ys). snd p \<noteq> NaN"
    and "sorted_wrt (\<lambda>a b. jsge (snd a) (snd b)) ys"
  shows "sorted_wrt (\<lambda>a b. jsge (snd a) (snd b)) (insertBy byValueDesc x ys)"
  using assms
proof (induction ys)
  case Nil
  show ?case by simp
next
  case (Cons y ys)
  have NX: "snd x \<noteq> NaN" and NY: "snd y \<noteq> NaN" using Cons.prems(1) by simp_all
  have C: "(\<not> jsgt (byValueDesc x y) (Fin 0)) = jsge (snd x) (snd y)"
    unfolding byValueDesc_def by (rule jsge_by_comparator [OF NX NY])
  have S: "sorted_wrt (\<lambda>a b. jsge (snd a) (snd b)) ys" and
    Y: "\<forall>z \<in> set ys. jsge (snd y) (snd z)"
    using Cons.prems(2) by simp_all
  show ?case
  proof (cases "jsge (snd x) (snd y)")
    case True
    then have "\<forall>z \<in> set ys. jsge (snd x) (snd z)" using Y jsge_trans by blast
    then show ?thesis using True C Cons.prems(2) by simp
  next
    case False
    then have YX: "jsge (snd y) (snd x)" using jsge_total [OF NX NY] by blast
    have "sorted_wrt (\<lambda>a b. jsge (snd a) (snd b)) (insertBy byValueDesc x ys)"
      using Cons.IH Cons.prems(1) S by simp
    then show ?thesis using False C YX Y by (simp add: set_insertBy)
  qed
qed

lemma sorted_sortBy_byValueDesc:
  assumes "\<forall>p \<in> set xs. snd p \<noteq> NaN"
  shows "sorted_wrt (\<lambda>a b. jsge (snd a) (snd b)) (sortBy byValueDesc xs)"
  using assms
proof (induction xs)
  case Nil
  show ?case by (simp add: sortBy_def)
next
  case (Cons x xs)
  have "sorted_wrt (\<lambda>a b. jsge (snd a) (snd b)) (sortBy byValueDesc xs)"
    using Cons by simp
  moreover have "\<forall>p \<in> insert x (set (sortBy byValueDesc xs)). snd p \<noteq> NaN"
    using Cons.prems by (simp add: set_sortBy)
  ultimately have "sorted_wrt (\<lambda>a b. jsge (snd a) (snd b))
      (insertBy byValueDesc x (sortBy byValueDesc xs))"
    by (rule sorted_insertBy_byValueDesc [rotated])
  then show ?case by (simp add: sortBy_def)
qed

subsection \<open>The reductions\<close>

lemma aggregateValues_meaning:
  "aggregateValues AggSum vs = Fin (sum_list vs)"
  "aggregateValues AggAvg vs = (if vs = [] then NaN else Fin (sum_list vs / real (length vs)))"
  "aggregateValues AggCount vs = Fin (real (length vs))"
  "aggregateValues AggMin vs = (if vs = [] then PosInf else Fin (Min (set vs)))"
  "aggregateValues AggMax vs = (if vs = [] then NegInf else Fin (Max (set vs)))"
proof -
  show "aggregateValues AggSum vs = Fin (sum_list vs)"
    by (simp add: reduce_add_sum_list)
  show "aggregateValues AggAvg vs = (if vs = [] then NaN else Fin (sum_list vs / real (length vs)))"
    by (simp add: reduce_add_sum_list)
  show "aggregateValues AggCount vs = Fin (real (length vs))" by simp
  show "aggregateValues AggMin vs = (if vs = [] then PosInf else Fin (Min (set vs)))"
    by (cases vs) (simp_all add: Min.set_eq_fold del: set_simps)
  show "aggregateValues AggMax vs = (if vs = [] then NegInf else Fin (Max (set vs)))"
    by (cases vs) (simp_all add: Max.set_eq_fold del: set_simps)
qed

lemma round2_Fin: "round2 (Fin x) = Fin (of_int \<lfloor>x * 100 + 1 / 2\<rfloor> / 100)"
  by (simp add: round2_def)

lemma groupKey_falsy:
  "groupKey h gb r =
     (if field r gb \<in> {Null, Undefined, Num 0, Str [], Bool False} then ''Unknown''
      else js_String h (field r gb))"
  unfolding groupKey_def Let_def truthy_iff by simp

lemma groupPoints_set:
  "set (groupPoints op (ownGroups h data gb ac)) =
     (\<lambda>k. (k, round2 (aggregateValues op
              (List.map_filter (\<lambda>r. Number h (field r ac))
                 (filter (\<lambda>r. groupKey h gb r = k) data)))))
       ` (groupKey h gb ` set data)"
  unfolding groupPoints_def set_map set_Object_entries ownGroups_set
  by (simp add: image_image)

lemma groupPoints_keys:
  "map fst (groupPoints op (ownGroups h data gb ac)) =
     map fst (Object_entries (ownGroups h data gb ac))"
  by (simp add: groupPoints_def comp_def)

lemma groupPoints_length:
  "length (groupPoints op (ownGroups h data gb ac)) = card (groupKey h gb ` set data)"
proof -
  define G where "G = ownGroups h data gb ac"
  have D: "distinct (map fst G)" unfolding G_def by (rule ownGroups_distinct)
  have "set (map fst G) = groupKey h gb ` set data"
    unfolding G_def set_map ownGroups_set by (simp add: image_image)
  then have "card (groupKey h gb ` set data) = length (map fst G)"
    using distinct_card [OF D] by simp
  then show ?thesis
    by (simp add: groupPoints_def length_Object_entries G_def)
qed

subsection \<open>Rows whose key is not inherited\<close>

lemma aggregateStep_own:
  assumes "groupKey h gb r \<notin> set objectPrototypeNames"
  shows "aggregateStep h gb ac r g = Inr (ownStep h gb ac r g)"
proof (cases "objGet g (groupKey h gb r)")
  case None
  have "objGet (objSet g (groupKey h gb r) []) (groupKey h gb r) = Some []"
    by (simp add: objGet_def map_of_objSet)
  then show ?thesis
    using None assms
    by (cases "Number h (field r ac)") (simp_all add: aggregateStep_def ownStep_def Let_def)
next
  case (Some vs)
  then show ?thesis
    by (cases "Number h (field r ac)") (simp_all add: aggregateStep_def ownStep_def Let_def)
qed

lemma aggregateLoop_own:
  assumes "\<forall>r \<in> set rs. groupKey h gb r \<notin> set objectPrototypeNames"
  shows "aggregateLoop h gb ac rs g = Inr (fold (ownStep h gb ac) rs g)"
  using assms
proof (induction rs arbitrary: g)
  case Nil
  show ?case by simp
next
  case (Cons r rs)
  then show ?case by (simp add: aggregateStep_own)
qed

lemma aggregatePoints_own:
  assumes "\<forall>r \<in> set data. groupKey h gb r \<notin> set objectPrototypeNames"
  shows "aggregatePoints h data gb ac op = Inr (groupPoints op (ownGroups h data gb ac))"
  by (simp add: aggregatePoints_def aggregateGroups_def ownGroups_def
      aggregateLoop_own [OF assms])

text \<open>On the word \<open>constructor\<close> as a group value the call throws.\<close>

lemma aggregateData_inherited_key_throws:
  "aggregateData demoHost [constructorRow] ''R'' ''V'' AggSum = Inl TypeError"
  by code_simp

text \<open>
  C3, as the code has it. The group key of a row is \<^verbatim>\<open>String(row[groupBy] || "Unknown")\<close>:
  \<open>"Unknown"\<close> for every falsy group value, that is for null, undefined, 0, the empty
  string and false, and the value's own string form otherwise. When no row's key is a
  name inherited from \<^verbatim>\<open>Object.prototype\<close>, the call returns and there is one point per
  key that occurs; its value is the chosen reduction of the numeric values of the
  group's rows (NaN dropped), rounded to two decimals, where the sum is the sum, the
  count is the number of collected values, the average of no values is NaN and the
  minimum and maximum of no values are \<open>+\<infinity>\<close> and \<open>-\<infinity>\<close>. When, moreover, no point's value is
  NaN, the result is the first ten of the points sorted stably in descending order of
  value.
\<close>

theorem aggregateData_groups:
  fixes h :: host and data :: "row list" and groupBy aggregateColumn :: string
    and op :: Aggregation
  defines "keyOf \<equiv> \<lambda>r. if field r groupBy \<in> {Null, Undefined, Num 0, Str [], Bool False}
                          then ''Unknown'' else js_String h (field r groupBy)"
  defines "valuesOf \<equiv> \<lambda>k. List.map_filter (\<lambda>r. Number h (field r aggregateColumn))
                              (filter (\<lambda>r. keyOf r = k) data)"
  assumes own: "\<forall>r \<in> set data. keyOf r \<notin> set objectPrototypeNames"
  shows "(\<forall>r. groupKey h groupBy r = keyOf r)
   \<and> (\<exists>points.
         aggregatePoints h data groupBy aggregateColumn op = Inr points
         \<and> set points =
             (\<lambda>k. (k, round2 (aggregateValues op (valuesOf k)))) ` (keyOf ` set data)
         \<and> distinct (map fst points)
         \<and> (NaN \<notin> snd ` set points \<longrightarrow>
              aggregateData h data groupBy aggregateColumn op =
                Inr (take 10 (sortBy byValueDesc points))
              \<and> mset (sortBy byValueDesc points) = mset points
              \<and> sorted_wrt (\<lambda>a b. jsge (snd a) (snd b)) (sortBy byValueDesc points)
              \<and> length (take 10 (sortBy byValueDesc points)) =
                  min 10 (card (keyOf ` set data))))
   \<and> (\<forall>vs. aggregateValues AggSum vs = Fin (sum_list vs)
          \<and> aggregateValues AggAvg vs =
              (if vs = [] then NaN else Fin (sum_list vs / real (length vs)))
          \<and> aggregateValues AggCount vs = Fin (real (length vs))
          \<and> aggregateValues AggMin vs = (if vs = [] then PosInf else Fin (Min (set vs)))
          \<and> aggregateValues AggMax vs = (if vs = [] then NegInf else Fin (Max (set vs))))
   \<and> (\<forall>x. round2 (Fin x) = Fin (of_int \<lfloor>x * 100 + 1 / 2\<rfloor> / 100))"
proof -
  have K: "groupKey h groupBy = keyOf"
    by (rule ext) (simp add: groupKey_falsy keyOf_def)
  have A: "\<forall>r. groupKey h groupBy r = keyOf r" by (simp add: K)
  define points where "points = groupPoints op (ownGroups h data groupBy aggregateColumn)"
  have O: "\<forall>r \<in> set data. groupKey h groupBy r \<notin> set objectPrototypeNames"
    using own by (simp add: K)
  have P: "aggregatePoints h data groupBy aggregateColumn op = Inr points"
    unfolding points_def by (rule aggregatePoints_own [OF O])
  have B: "set points =
      (\<lambda>k. (k, round2 (aggregateValues op (valuesOf k)))) ` (keyOf ` set data)"
    unfolding points_def groupPoints_set K valuesOf_def by (rule refl)
  have C: "distinct (map fst points)"
    unfolding points_def groupPoints_keys distinct_keys_Object_entries
    by (rule ownGroups_distinct)
  have S: "NaN \<notin> snd ` set points \<longrightarrow>
              aggregateData h data groupBy aggregateColumn op =
                Inr (take 10 (sortBy byValueDesc points))
              \<and> mset (sortBy byValueDesc points) = mset points
              \<and> sorted_wrt (\<lambda>a b. jsge (snd a) (snd b)) (sortBy byValueDesc points)
              \<and> length (take 10 (sortBy byValueDesc points)) =
                  min 10 (card (keyOf ` set data))"
  proof
    assume N: "NaN \<notin> snd ` set points"
    have F: "aggregateData h data groupBy aggregateColumn op =
        Inr (take 10 (sortBy byValueDesc points))"
      using N by (simp add: aggregateData_def P sortPoints_def)
    have G: "mset (sortBy byValueDesc points) = mset points" by (rule mset_sortBy)
    from N have "\<forall>p \<in> set points. snd p \<noteq> NaN" by (metis imageI)
    then have I: "sorted_wrt (\<lambda>a b. jsge (snd a) (snd b)) (sortBy byValueDesc points)"
      by (rule sorted_sortBy_byValueDesc)
    have H: "length (take 10 (sortBy byValueDesc points)) =
        min 10 (card (keyOf ` set data))"
      by (simp add: length_sortBy points_def groupPoints_length K min.commute)
    show "aggregateData h data groupBy aggregateColumn op =
                Inr (take 10 (sortBy byValueDesc points))
              \<and> mset (sortBy byValueDesc points) = mset points
              \<and> sorted_wrt (\<lambda>a b. jsge (snd a) (snd b)) (sortBy byValueDesc points)
              \<and> length (take 10 (sortBy byValueDesc points)) =
                  min 10 (card (keyOf ` set data))"
      using F G I H by blast
  qed
  have D: "\<forall>vs. aggregateValues AggSum vs = Fin (sum_list vs)
          \<and> aggregateValues AggAvg vs =
              (if vs = [] then NaN else Fin (sum_list vs / real (length vs)))
          \<and> aggregateValues AggCount vs = Fin (real (length vs))
          \<and> aggregateValues AggMin vs = (if vs = [] then PosInf else Fin (Min (set vs)))
          \<and> aggregateValues AggMax vs = (if vs = [] then NegInf else Fin (Max (set vs)))"
    using aggregateValues_meaning by blast
  have E: "\<forall>x. round2 (Fin x) = Fin (of_int \<lfloor>x * 100 + 1 / 2\<rfloor> / 100)"
    by (simp add: round2_Fin)
  show ?thesis using A P B C S D E by blast
qed

theorem aggregateData_groups_witness:
  "groupKey demoHost ''R'' ` set regionRows = {''A'', ''B''}
   \<and> ''A'' \<notin> set objectPrototypeNames \<and> ''B'' \<notin> set objectPrototypeNames
   \<and> aggregatePoints demoHost regionRows ''R'' ''V'' AggSum =
       Inr [(''A'', Fin 30), (''B'', Fin 5)]
   \<and> NaN \<notin> snd ` set [(''A'', Fin 30), (''B'', Fin 5)]
   \<and> aggregateData demoHost regionRows ''R'' ''V'' AggSum =
       Inr (take 10 (sortBy byValueDesc [(''A'', Fin 30), (''B'', Fin 5)]))
   \<and> aggregateData demoHost regionRows ''R'' ''V'' AggSum =
       Inr [(''A'', Fin 30), (''B'', Fin 5)]"
proof -
  have K: "groupKey demoHost ''R'' ` set regionRows = {''A'', ''B''}"
    by (simp add: regionRows_def groupKey_def field_def)
  have NA: "''A'' \<notin> set objectPrototypeNames" "''B'' \<notin> set objectPrototypeNames"
    by (simp_all add: objectPrototypeNames_def)
  have P: "aggregatePoints demoHost regionRows ''R'' ''V'' AggSum =
      Inr [(''A'', Fin 30), (''B'', Fin 5)]"
    by code_simp
  have N: "NaN \<notin> snd ` set [(''A'', Fin 30), (''B'', Fin 5)]" by simp
  have R: "aggregateData demoHost regionRows ''R'' ''V'' AggSum =
      Inr [(''A'', Fin 30), (''B'', Fin 5)]"
    by code_simp
  have own: "\<forall>r \<in> set regionRows.
      (if field r ''R'' \<in> {Null, Undefined, Num 0, Str [], Bool False} then ''Unknown''
       else js_String demoHost (field r ''R'')) \<notin> set objectPrototypeNames"
    by (simp add: regionRows_def field_def objectPrototypeNames_def)
  have "aggregateData demoHost regionRows ''R'' ''V'' AggSum =
       Inr (take 10 (sortBy byValueDesc [(''A'', Fin 30), (''B'', Fin 5)]))"
    using aggregateData_groups [where h = demoHost and data = regionRows
        and groupBy = "''R''" and aggregateColumn = "''V''" and op = AggSum, OF own]
    unfolding P using N by auto
  then show ?thesis using K NA P N R by blast
qed

text \<open>
  A row whose group value is \<^verbatim>\<open>false\<close>: its string form is \<open>"false"\<close>, and it is grouped
  under \<open>"Unknown"\<close>.
\<close>

theorem aggregateData_false_counterexample:
  "field falseRow ''R'' = Bool False
   \<and> js_String demoHost (field falseRow ''R'') = ''false''
   \<and> groupKey demoHost ''R'' falseRow = ''Unknown''
   \<and> aggregateData demoHost [falseRow] ''R'' ''V'' AggSum = Inr [(''Unknown'', Fin 1)]"
  by code_simp

end
